theory Spec2Isabelle
  imports Complex_Main "HOL-Library.Word" "HOL-Library.Multiset"
begin

section \<open>Primitive types of package common\<close>

text \<open>
  Go's fixed-width unsigned integers are words of the same width. \<open>Idx\<close> and \<open>Nonce\<close>
  are declared over \<open>uint64\<close>; the protocol uses 48 and 40 bits of them. Byte arrays
  (\<open>TxID\<close>) are byte lists; opaque fixed-size values (addresses, compressed keys, group
  identifiers) are words of their bit width. \<open>*big.Int\<close> is \<open>int option\<close>, \<open>None\<close>
  being the nil pointer. \<open>float64\<close> fees are only ever compared in the code embedded
  here; they are \<open>real\<close> (NaN excluded).
\<close>

type_synonym byte = "8 word"
type_synonym Idx = "64 word"
type_synonym Nonce = "64 word"
type_synonym TokenID = "32 word"
type_synonym FeeSelector = "8 word"
type_synonym TxID = "byte list"
type_synonym Address = "160 word"
type_synonym PublicKeyComp = "256 word"
type_synonym AtomicGroupID = "256 word"
type_synonym SignatureComp = "512 word"

datatype TxType =
    TxTypeUnset
  | TxTypeExit
  | TxTypeTransfer
  | TxTypeTransferToEthAddr
  | TxTypeTransferToBJJ
  | TxTypeDeposit
  | TxTypeCreateAccountDeposit
  | TxTypeCreateAccountDepositTransfer
  | TxTypeDepositTransfer
  | TxTypeForceTransfer
  | TxTypeForceExit
  | TxTypeOther string

datatype api_error =
    ErrNotAtomicTxsInPostPoolTx
  | ErrSingleTxInAtomicEndpoint
  | ErrRqOffsetOutOfBounds
  | ErrTxsNotAtomic
  | ErrInvalidRqOffset
  | ErrExitAmount0
  | ErrMalformedTransaction
  | ErrL2TxType TxType TxType
  | ErrPoolL2TxTxID TxID TxID
  | ErrIdxOverflow
  | ErrNonceOverflow
  | ErrGettingFromAccount string
  | ErrTokenIDMismatch TokenID TokenID
  | ErrNonceTooLow Nonce Nonce
  | ErrWrongSignature
  | ErrGettingToAccount string
  | ErrToTokenIDMismatch TokenID TokenID
  | ErrDestinationEthAddr Address
  | ErrExternal string
  | PanicNilPointer

text \<open>
  Constants of package common that are declared outside the embedded files. Their values
  are left open: every function that reads one takes the record as its first argument.
\<close>

record Consts =
  IdxUserThreshold :: Idx
  TxIDPrefixL2Tx :: byte
  SignatureConstantBytes :: "byte list"

definition TxIDLen :: nat where
  "TxIDLen = 12"

definition EmptyTxID :: TxID where
  "EmptyTxID = replicate TxIDLen 0"

definition EmptyAtomicGroupID :: AtomicGroupID where
  "EmptyAtomicGroupID = 0"

definition EmptyAddr :: Address where
  "EmptyAddr = 0"

definition FFAddr :: Address where
  "FFAddr = - 1"

definition EmptyBJJComp :: PublicKeyComp where
  "EmptyBJJComp = 0"

record Account =
  Idx :: Idx
  TokenID :: TokenID
  Nonce :: Nonce
  Balance :: int
  BJJ :: PublicKeyComp
  EthAddr :: Address

record L1Tx =
  Position :: int
  UserOrigin :: bool
  FromIdx :: Idx
  ToIdx :: Idx
  FromEthAddr :: Address
  FromBJJ :: PublicKeyComp
  TokenID :: TokenID
  Amount :: int
  DepositAmount :: int
  EffectiveAmount :: "int option"
  EffectiveDepositAmount :: "int option"
  Type :: TxType

text \<open>
  \<open>PoolL2Tx\<close> as in common/pooll2tx.go, with the atomic-coupling and annotation fields
  that api/txspool.go and the selector read (\<open>RqOffset\<close>, \<open>RqTxID\<close>, \<open>AtomicGroupID\<close>,
  \<open>Info\<close>, \<open>ErrorCode\<close>, \<open>ErrorType\<close>, \<open>ClientIP\<close>). Fields that no embedded function
  reads (timestamps, pool state, \<open>AuxToIdx\<close>) are left out.
\<close>

record PoolL2Tx =
  TxID :: TxID
  FromIdx :: Idx
  ToIdx :: Idx
  ToEthAddr :: Address
  ToBJJ :: PublicKeyComp
  TokenID :: TokenID
  Amount :: "int option"
  Fee :: FeeSelector
  Nonce :: Nonce
  Signature :: SignatureComp
  RqFromIdx :: Idx
  RqToIdx :: Idx
  RqToEthAddr :: Address
  RqToBJJ :: PublicKeyComp
  RqTokenID :: TokenID
  RqAmount :: "int option"
  RqFee :: FeeSelector
  RqNonce :: Nonce
  AbsoluteFee :: real
  Type :: TxType
  RqOffset :: "8 word"
  RqTxID :: TxID
  AtomicGroupID :: AtomicGroupID
  Info :: string
  ErrorCode :: int
  ErrorType :: string
  ClientIP :: string

record AtomicGroup =
  Txs :: "PoolL2Tx list"

section \<open>api/txspool.go: request offsets\<close>

definition requestOffset2RelativePosition :: "8 word \<Rightarrow> api_error + int" where
  "requestOffset2RelativePosition rqoffset =
     (if rqoffset = 0 then Inl ErrTxsNotAtomic
      else if rqoffset = 1 then Inr 1
      else if rqoffset = 2 then Inr 2
      else if rqoffset = 3 then Inr 3
      else if rqoffset = 4 then Inr (- 4)
      else if rqoffset = 5 then Inr (- 3)
      else if rqoffset = 6 then Inr (- 2)
      else if rqoffset = 7 then Inr (- 1)
      else Inl ErrInvalidRqOffset)"

section \<open>txselector: validity of an atomic group\<close>

text \<open>
  One iteration of the loop of \<open>isAtomicGroupValid\<close>: the body for index \<open>i\<close>, \<open>True\<close>
  when the loop goes on and \<open>False\<close> when it returns false. The selector calls the
  exported \<open>api.RequestOffset2RelativePosition\<close>, the offset table above.
\<close>

definition atomicTxRequestOk :: "PoolL2Tx list \<Rightarrow> nat \<Rightarrow> bool" where
  "atomicTxRequestOk txs i =
     (case requestOffset2RelativePosition (RqOffset (txs ! i)) of
        Inl err \<Rightarrow> False
      | Inr rqRelativePosition \<Rightarrow>
          (let requestedPosition = int i + rqRelativePosition in
           if requestedPosition > int (length txs) - 1 \<or> requestedPosition < 0 then False
           else
             (let requestedTx = txs ! nat requestedPosition; tx = txs ! i in
              if RqFromIdx tx \<noteq> FromIdx requestedTx \<or>
                 RqToIdx tx \<noteq> ToIdx requestedTx \<or>
                 RqToEthAddr tx \<noteq> ToEthAddr requestedTx \<or>
                 RqToBJJ tx \<noteq> ToBJJ requestedTx \<or>
                 RqTokenID tx \<noteq> TokenID requestedTx \<or>
                 RqFee tx \<noteq> Fee requestedTx \<or>
                 RqNonce tx \<noteq> Nonce requestedTx then False
              else
                (case (RqAmount tx, Amount requestedTx) of
                   (Some rq, Some a) \<Rightarrow> rq = a
                 | (None, None) \<Rightarrow> True
                 | _ \<Rightarrow> False))))"

definition isAtomicGroupValid :: "AtomicGroup \<Rightarrow> bool" where
  "isAtomicGroupValid atomicGroup =
     list_all (atomicTxRequestOk (Txs atomicGroup)) [0..<length (Txs atomicGroup)]"


section \<open>common/pooll2tx.go: type and identifier of a pool transaction\<close>

text \<open>
  \<open>binary.BigEndian.PutUintN\<close> and \<open>(*big.Int).SetBytes\<close>: \<open>bigEndian n x\<close> is the
  \<open>n\<close>-byte big-endian encoding of \<open>x\<close> (its low \<open>8 * n\<close> bits), \<open>SetBytes\<close> reads a byte
  slice as a big-endian unsigned integer.
\<close>

fun bigEndian :: "nat \<Rightarrow> nat \<Rightarrow> byte list" where
  "bigEndian 0 x = []"
| "bigEndian (Suc n) x = bigEndian n (x div 256) @ [of_nat (x mod 256)]"

definition SetBytes :: "byte list \<Rightarrow> nat" where
  "SetBytes bs = foldl (\<lambda>acc b. acc * 256 + unat b) 0 bs"

text \<open>
  Go's \<open>copy(dst[lo:hi], src)\<close>: the first \<open>min (hi - lo) (len src)\<close> elements of \<open>src\<close>
  overwrite \<open>dst\<close> from position \<open>lo\<close>.
\<close>

definition go_copy :: "'a list \<Rightarrow> nat \<Rightarrow> nat \<Rightarrow> 'a list \<Rightarrow> 'a list" where
  "go_copy dst lo hi src =
     (let n = min (hi - lo) (length src) in take lo dst @ take n src @ drop (lo + n) dst)"

text \<open>
  Modelled from the spec: \<open>Idx.Bytes\<close>, \<open>Nonce.Bytes\<close>, \<open>TokenID.Bytes\<close> and
  \<open>Float16.Bytes\<close> are declared outside the embedded files. The spec gives \<open>Idx\<close> as a
  48-bit, \<open>Nonce\<close> as a 40-bit, \<open>TokenID\<close> as a 32-bit and \<open>Float16\<close> as a 16-bit
  unsigned integer, written in 6, 5, 4 and 2 bytes, big-endian within each field. The call
  sites handle an error from the first two: a \<open>uint64\<close> beyond the field's width.
\<close>

definition Idx_Bytes :: "Idx \<Rightarrow> api_error + byte list" where
  "Idx_Bytes idx =
     (if unat idx < 2 ^ 48 then Inr (bigEndian 6 (unat idx)) else Inl ErrIdxOverflow)"

definition Nonce_Bytes :: "Nonce \<Rightarrow> api_error + byte list" where
  "Nonce_Bytes n =
     (if unat n < 2 ^ 40 then Inr (bigEndian 5 (unat n)) else Inl ErrNonceOverflow)"

definition TokenID_Bytes :: "TokenID \<Rightarrow> byte list" where
  "TokenID_Bytes t = bigEndian 4 (unat t)"

definition Float16_Bytes :: "16 word \<Rightarrow> byte list" where
  "Float16_Bytes f = bigEndian 2 (unat f)"

definition SetType :: "Consts \<Rightarrow> PoolL2Tx \<Rightarrow> api_error + PoolL2Tx" where
  "SetType c tx =
     (if IdxUserThreshold c \<le> ToIdx tx then Inr (tx\<lparr>Type := TxTypeTransfer\<rparr>)
      else if ToIdx tx = 1 then Inr (tx\<lparr>Type := TxTypeExit\<rparr>)
      else if ToIdx tx = 0 then
        (if ToBJJ tx \<noteq> EmptyBJJComp \<and> ToEthAddr tx = FFAddr
           then Inr (tx\<lparr>Type := TxTypeTransferToBJJ\<rparr>)
         else if ToEthAddr tx \<noteq> FFAddr \<and> ToEthAddr tx \<noteq> EmptyAddr
           then Inr (tx\<lparr>Type := TxTypeTransferToEthAddr\<rparr>)
         else Inr tx)
      else Inl ErrMalformedTransaction)"

text \<open>
  \<open>SetID\<close> writes the prefix, then the bytes of \<open>FromIdx\<close>, then the bytes of \<open>Nonce\<close>.
  On an error the caller drops the transaction, so the model returns the error alone.
\<close>

definition SetID :: "Consts \<Rightarrow> PoolL2Tx \<Rightarrow> api_error + PoolL2Tx" where
  "SetID c tx =
     (let tx1 = tx\<lparr>TxID := (TxID tx)[0 := TxIDPrefixL2Tx c]\<rparr> in
      case Idx_Bytes (FromIdx tx1) of
        Inl err \<Rightarrow> Inl err
      | Inr fromIdxBytes \<Rightarrow>
          (let tx2 = tx1\<lparr>TxID := go_copy (TxID tx1) 1 7 fromIdxBytes\<rparr> in
           case Nonce_Bytes (Nonce tx2) of
             Inl err \<Rightarrow> Inl err
           | Inr nonceBytes \<Rightarrow> Inr (tx2\<lparr>TxID := go_copy (TxID tx2) 7 12 nonceBytes\<rparr>)))"

definition NewPoolL2Tx :: "Consts \<Rightarrow> PoolL2Tx \<Rightarrow> api_error + PoolL2Tx" where
  "NewPoolL2Tx c tx =
     (let txTypeOld = Type tx in
      case SetType c tx of
        Inl err \<Rightarrow> Inl err
      | Inr tx1 \<Rightarrow>
          if txTypeOld \<noteq> TxTypeUnset \<and> txTypeOld \<noteq> Type tx1
          then Inl (ErrL2TxType (Type tx1) txTypeOld)
          else
            (let txIDOld = TxID tx1 in
             case SetID c tx1 of
               Inl err \<Rightarrow> Inl err
             | Inr tx2 \<Rightarrow>
                 if txIDOld \<noteq> EmptyTxID \<and> txIDOld \<noteq> TxID tx2
                 then Inl (ErrPoolL2TxTxID (TxID tx2) txIDOld)
                 else Inr tx2))"

section \<open>api/txspool.go: validation of one pool transaction\<close>

text \<open>
  The collaborators of the handlers, declared outside the embedded files, are fields of
  the receiver: the history database (\<open>GetCommonAccountAPI\<close>, \<open>CanSendToEthAddr\<close>), the
  fee table (\<open>CalcFeeAmount\<close>), the signature check (Poseidon and BabyJubJub, a black
  box) and the pool database with state \<open>'db\<close>. Their errors are messages.
\<close>

record 'db API =
  common :: Consts
  ChainID :: "16 word"
  GetCommonAccountAPI :: "Idx \<Rightarrow> string + Account"
  CanSendToEthAddr :: "Address \<Rightarrow> TokenID \<Rightarrow> string + bool"
  CalcFeeAmount :: "int option \<Rightarrow> FeeSelector \<Rightarrow> string + int"
  VerifySignature :: "PoolL2Tx \<Rightarrow> 16 word \<Rightarrow> PublicKeyComp \<Rightarrow> bool"
  AddTxAPI :: "'db \<Rightarrow> PoolL2Tx \<Rightarrow> string + 'db"
  AddAtomicTxsAPI :: "'db \<Rightarrow> PoolL2Tx list \<Rightarrow> string + 'db"

text \<open>The check of the destination, the first \<open>switch tx.Type\<close> of \<open>verifyPoolL2Tx\<close>.\<close>

definition checkDestinatary :: "'db API \<Rightarrow> PoolL2Tx \<Rightarrow> api_error + unit" where
  "checkDestinatary a tx =
     (if Type tx = TxTypeTransfer then
        (case GetCommonAccountAPI a (ToIdx tx) of
           Inl err \<Rightarrow> Inl (ErrGettingToAccount err)
         | Inr toAccount \<Rightarrow>
             if TokenID tx \<noteq> Account.TokenID toAccount
             then Inl (ErrToTokenIDMismatch (TokenID tx) (Account.TokenID toAccount))
             else Inr ())
      else if Type tx = TxTypeTransferToEthAddr then
        (case CanSendToEthAddr a (ToEthAddr tx) (TokenID tx) of
           Inl err \<Rightarrow> Inl (ErrExternal err)
         | Inr ok \<Rightarrow> if \<not> ok then Inl (ErrDestinationEthAddr (ToEthAddr tx)) else Inr ())
      else Inr ())"

text \<open>
  \<open>verifyPoolL2Tx\<close> receives the transaction by value: \<open>NewPoolL2Tx\<close> sets the type and
  the identifier of that copy, and the later checks read the copy. \<open>tx.Amount.Cmp\<close> on
  a nil amount is a nil-pointer panic.
\<close>

definition verifyPoolL2Tx :: "'db API \<Rightarrow> PoolL2Tx \<Rightarrow> api_error + unit" where
  "verifyPoolL2Tx a tx0 =
     (case NewPoolL2Tx (common a) tx0 of
        Inl err \<Rightarrow> Inl err
      | Inr tx \<Rightarrow>
          (case CalcFeeAmount a (Amount tx) (Fee tx) of
             Inl err \<Rightarrow> Inl (ErrExternal err)
           | Inr feeAmount \<Rightarrow>
               (case GetCommonAccountAPI a (FromIdx tx) of
                  Inl err \<Rightarrow> Inl (ErrGettingFromAccount err)
                | Inr account \<Rightarrow>
                    if TokenID tx \<noteq> Account.TokenID account
                    then Inl (ErrTokenIDMismatch (TokenID tx) (Account.TokenID account))
                    else if Nonce tx < Account.Nonce account
                    then Inl (ErrNonceTooLow (Nonce tx) (Account.Nonce account))
                    else if \<not> VerifySignature a tx (ChainID a) (BJJ account)
                    then Inl ErrWrongSignature
                    else
                      (case checkDestinatary a tx of
                         Inl err \<Rightarrow> Inl err
                       | Inr u \<Rightarrow>
                           if Type tx = TxTypeExit then
                             (case Amount tx of
                                None \<Rightarrow> Inl PanicNilPointer
                              | Some amount \<Rightarrow>
                                  if amount \<le> 0 then Inl ErrExitAmount0 else Inr ())
                           else Inr ()))))"

section \<open>api/txspool.go: detection of a single atomic group\<close>

text \<open>
  The graph library \<open>github.com/yourbasic/graph\<close> is not part of the repository. Its
  documented contract is modelled: \<open>New n\<close> is the graph with vertices \<open>0..n-1\<close> and no
  edge, \<open>Add\<close> inserts a directed edge, and \<open>StrongComponents\<close> produces the partition
  of the vertices into strongly connected components (here: the component of every
  vertex, in vertex order, without repetition).
\<close>

record Graph =
  vertices :: nat
  edges :: "(nat \<times> nat) list"

definition graph_New :: "nat \<Rightarrow> Graph" where
  "graph_New n = \<lparr>vertices = n, edges = []\<rparr>"

definition graph_Add :: "Graph \<Rightarrow> nat \<Rightarrow> nat \<Rightarrow> Graph" where
  "graph_Add g v w = g\<lparr>edges := edges g @ [(v, w)]\<rparr>"

definition connected :: "Graph \<Rightarrow> nat \<Rightarrow> nat \<Rightarrow> bool" where
  "connected g v w \<longleftrightarrow> v = w \<or> (v, w) \<in> (set (edges g))\<^sup>+"

definition component :: "Graph \<Rightarrow> nat \<Rightarrow> nat list" where
  "component g v = filter (\<lambda>w. connected g v w \<and> connected g w v) [0..<vertices g]"

definition StrongComponents :: "Graph \<Rightarrow> nat list list" where
  "StrongComponents g = remdups (map (component g) [0..<vertices g])"

text \<open>The first loop of \<open>isSingleAtomicGroup\<close>: a later transaction overwrites the entry
  of an earlier one with the same \<open>TxID\<close>.\<close>

definition idToPos :: "PoolL2Tx list \<Rightarrow> TxID \<Rightarrow> nat option" where
  "idToPos txs = fold (\<lambda>(i, tx) m. m(TxID tx \<mapsto> i)) (enumerate 0 txs) Map.empty"

text \<open>The second loop: \<open>None\<close> is the early \<open>return false\<close>.\<close>

fun addRequests :: "(TxID \<Rightarrow> nat option) \<Rightarrow> (nat \<times> PoolL2Tx) list \<Rightarrow> Graph \<Rightarrow> Graph option" where
  "addRequests m [] g = Some g"
| "addRequests m ((i, tx) # rest) g =
     (if RqTxID tx = EmptyTxID then None
      else case m (RqTxID tx) of
             Some rqTxPos \<Rightarrow> addRequests m rest (graph_Add g i rqTxPos)
           | None \<Rightarrow> None)"

definition isSingleAtomicGroup :: "PoolL2Tx list \<Rightarrow> bool" where
  "isSingleAtomicGroup txs =
     (case addRequests (idToPos txs) (enumerate 0 txs) (graph_New (length txs)) of
        None \<Rightarrow> False
      | Some g \<Rightarrow> length (StrongComponents g) = 1)"

section \<open>api/txspool.go: the submission handlers\<close>

datatype response =
    BadRequest api_error
  | SQLError string
  | StatusOK "TxID list"
  | InternalPanic

text \<open>\<open>retBadReq\<close>; a panic never reaches it.\<close>

definition retBadReq :: "api_error \<Rightarrow> response" where
  "retBadReq err = (if err = PanicNilPointer then InternalPanic else BadRequest err)"

text \<open>
  A handler takes the result of \<open>ShouldBindJSON\<close> (a parse error or the parsed body), the
  client address and the state of the pool database, and returns the response with the
  new state.
\<close>

definition postPoolTx ::
  "'db API \<Rightarrow> string \<Rightarrow> 'db \<Rightarrow> string + PoolL2Tx \<Rightarrow> response \<times> 'db" where
  "postPoolTx a clientIP db body =
     (case body of
        Inl err \<Rightarrow> (BadRequest (ErrExternal err), db)
      | Inr receivedTx \<Rightarrow>
          if RqOffset receivedTx \<noteq> 0 \<or> RqTxID receivedTx \<noteq> EmptyTxID
          then (BadRequest ErrNotAtomicTxsInPostPoolTx, db)
          else
            (case verifyPoolL2Tx a receivedTx of
               Inl err \<Rightarrow> (retBadReq err, db)
             | Inr u \<Rightarrow>
                 (let receivedTx' = receivedTx\<lparr>ClientIP := clientIP\<rparr> in
                  case AddTxAPI a db receivedTx' of
                    Inl err \<Rightarrow> (SQLError err, db)
                  | Inr db' \<Rightarrow> (StatusOK [TxID receivedTx'], db'))))"

text \<open>A \<open>for i := range\<close> loop whose body may return early with an error.\<close>

fun forRange :: "('s \<Rightarrow> nat \<Rightarrow> 'e + 's) \<Rightarrow> nat list \<Rightarrow> 's \<Rightarrow> 'e + 's" where
  "forRange body [] s = Inr s"
| "forRange body (i # is) s =
     (case body s i of Inl err \<Rightarrow> Inl err | Inr s' \<Rightarrow> forRange body is s')"

definition setRqFields :: "PoolL2Tx list \<Rightarrow> nat \<Rightarrow> api_error + PoolL2Tx list" where
  "setRqFields receivedTxs i =
     (let tx1 = receivedTxs ! i in
      case requestOffset2RelativePosition (RqOffset tx1) of
        Inl err \<Rightarrow> Inl err
      | Inr relativePosition \<Rightarrow>
          (let requestedPosition = int i + relativePosition in
           if requestedPosition > int (length receivedTxs) - 1 \<or> requestedPosition < 0
           then Inl ErrRqOffsetOutOfBounds
           else
             (let requestedTx = receivedTxs ! nat requestedPosition in
              if RqTxID tx1 = TxID requestedTx
              then Inr (receivedTxs[i := (receivedTxs ! i)
                     \<lparr>RqFromIdx := FromIdx requestedTx,
                      RqToIdx := ToIdx requestedTx,
                      RqToEthAddr := ToEthAddr requestedTx,
                      RqToBJJ := ToBJJ requestedTx,
                      RqTokenID := TokenID requestedTx,
                      RqAmount := Amount requestedTx,
                      RqFee := Fee requestedTx,
                      RqNonce := Nonce requestedTx\<rparr>])
              else Inr receivedTxs)))"

definition verifyEach ::
  "'db API \<Rightarrow> string \<Rightarrow> PoolL2Tx list \<times> TxID list \<Rightarrow> nat \<Rightarrow> api_error + PoolL2Tx list \<times> TxID list" where
  "verifyEach a clientIP s i =
     (case s of (receivedTxs, txIDStrings) \<Rightarrow>
        (let tx = receivedTxs ! i in
         case verifyPoolL2Tx a tx of
           Inl err \<Rightarrow> Inl err
         | Inr u \<Rightarrow>
             Inr (receivedTxs[i := (receivedTxs ! i)\<lparr>ClientIP := clientIP\<rparr>],
                  txIDStrings[i := TxID tx])))"

definition postAtomicPool ::
  "'db API \<Rightarrow> string \<Rightarrow> 'db \<Rightarrow> string + PoolL2Tx list \<Rightarrow> response \<times> 'db" where
  "postAtomicPool a clientIP db body =
     (case body of
        Inl err \<Rightarrow> (BadRequest (ErrExternal err), db)
      | Inr receivedTxs \<Rightarrow>
          (let nTxs = length receivedTxs in
           if nTxs \<le> 1 then (BadRequest ErrSingleTxInAtomicEndpoint, db)
           else
             (case forRange setRqFields [0..<nTxs] receivedTxs of
                Inl err \<Rightarrow> (BadRequest err, db)
              | Inr receivedTxs1 \<Rightarrow>
                  (case forRange (verifyEach a clientIP) [0..<nTxs]
                          (receivedTxs1, replicate nTxs []) of
                     Inl err \<Rightarrow> (retBadReq err, db)
                   | Inr (receivedTxs2, txIDStrings) \<Rightarrow>
                       if \<not> isSingleAtomicGroup receivedTxs2
                       then (BadRequest ErrTxsNotAtomic, db)
                       else
                         (case AddAtomicTxsAPI a db receivedTxs2 of
                            Inl err \<Rightarrow> (SQLError err, db)
                          | Inr db' \<Rightarrow> (StatusOK txIDStrings, db'))))))"

section \<open>Example values\<close>

definition emptyPoolL2Tx :: PoolL2Tx where
  "emptyPoolL2Tx =
     \<lparr>TxID = EmptyTxID, FromIdx = 0, ToIdx = 0, ToEthAddr = EmptyAddr, ToBJJ = EmptyBJJComp,
      TokenID = 0, Amount = None, Fee = 0, Nonce = 0, Signature = 0,
      RqFromIdx = 0, RqToIdx = 0, RqToEthAddr = EmptyAddr, RqToBJJ = EmptyBJJComp,
      RqTokenID = 0, RqAmount = None, RqFee = 0, RqNonce = 0, AbsoluteFee = 0,
      Type = TxTypeUnset, RqOffset = 0, RqTxID = EmptyTxID,
      AtomicGroupID = EmptyAtomicGroupID, Info = [], ErrorCode = 0, ErrorType = [],
      ClientIP = []\<rparr>"



definition consts0 :: Consts where
  "consts0 = \<lparr>IdxUserThreshold = 256, TxIDPrefixL2Tx = 2, SignatureConstantBytes = [198, 11, 230, 15]\<rparr>"

definition txTransfer :: PoolL2Tx where
  "txTransfer = emptyPoolL2Tx\<lparr>TxID := [2, 0, 0, 0, 0, 1, 0, 0, 0, 0, 0, 3], FromIdx := 256, ToIdx := 257, Nonce := 3, Amount := Some 10\<rparr>"

definition txExitDeclared :: PoolL2Tx where
  "txExitDeclared = txTransfer\<lparr>Type := TxTypeExit\<rparr>"

lemma length_bigEndian [simp]: "length (bigEndian n x) = n"
  by (induction n arbitrary: x) auto



definition account256 :: Account where
  "account256 = \<lparr>Idx = 256, TokenID = 0, Nonce = 0, Balance = 1000, BJJ = 1, EthAddr = 1\<rparr>"

definition api0 :: "PoolL2Tx list API" where
  "api0 = \<lparr>common = consts0, ChainID = 0,
     GetCommonAccountAPI = (\<lambda>idx. if idx = 256 then Inr account256 else Inl ''account not found''),
     CanSendToEthAddr = (\<lambda>addr tokenID. Inr True),
     CalcFeeAmount = (\<lambda>amount fee. Inr 0),
     VerifySignature = (\<lambda>tx chainID pk. True),
     AddTxAPI = (\<lambda>db tx. Inr (db @ [tx])),
     AddAtomicTxsAPI = (\<lambda>db txs. Inr (db @ txs))\<rparr>"

definition txExit :: PoolL2Tx where
  "txExit = emptyPoolL2Tx\<lparr>TxID := [2, 0, 0, 0, 0, 1, 0, 0, 0, 0, 0, 3], FromIdx := 256, ToIdx := 1, Nonce := 3, Amount := Some 0\<rparr>"

section \<open>common/pooll2tx.go: compressed transaction data\<close>

text \<open>
  \<open>TxCompressedData\<close> fills a 31-byte array and reads it as a big-endian integer. Two
  collaborators are arguments: \<open>NewFloat16\<close> (declared outside the embedded files; it
  fails on an amount that the 16-bit float cannot represent) and \<open>babyjub.UnpackSignY\<close>
  (external library; the sign bit and the ordinate of a compressed key).
\<close>

definition TxCompressedData ::
  "Consts \<Rightarrow> (int option \<Rightarrow> api_error + 16 word) \<Rightarrow> (PublicKeyComp \<Rightarrow> bool \<times> nat) \<Rightarrow>
   PoolL2Tx \<Rightarrow> 16 word \<Rightarrow> api_error + nat" where
  "TxCompressedData c NewFloat16 UnpackSignY tx chainID =
     (case NewFloat16 (Amount tx) of
        Inl err \<Rightarrow> Inl err
      | Inr amountFloat16 \<Rightarrow>
          (let b0 = replicate 31 (0 :: byte);
               toBJJSign = (if fst (UnpackSignY (ToBJJ tx)) then 1 else 0);
               b1 = b0[0 := toBJJSign];
               b2 = b1[1 := Fee tx]
           in case Nonce_Bytes (Nonce tx) of
                Inl err \<Rightarrow> Inl err
              | Inr nonceBytes \<Rightarrow>
                  (let b3 = go_copy b2 2 7 nonceBytes;
                       b4 = go_copy b3 7 11 (TokenID_Bytes (TokenID tx));
                       b5 = go_copy b4 11 13 (Float16_Bytes amountFloat16)
                   in case Idx_Bytes (ToIdx tx) of
                        Inl err \<Rightarrow> Inl err
                      | Inr toIdxBytes \<Rightarrow>
                          (let b6 = go_copy b5 13 19 toIdxBytes
                           in case Idx_Bytes (FromIdx tx) of
                                Inl err \<Rightarrow> Inl err
                              | Inr fromIdxBytes \<Rightarrow>
                                  (let b7 = go_copy b6 19 25 fromIdxBytes;
                                       b8 = go_copy b7 25 27 (bigEndian 2 (unat chainID));
                                       b9 = go_copy b8 27 31 (SignatureConstantBytes c)
                                   in Inr (SetBytes b9))))))"

text \<open>The layout of the claim: the fields in order, each big-endian.\<close>

definition txCompressedDataLayout ::
  "Consts \<Rightarrow> bool \<Rightarrow> 16 word \<Rightarrow> PoolL2Tx \<Rightarrow> 16 word \<Rightarrow> byte list" where
  "txCompressedDataLayout c toBJJSign amountFloat16 tx chainID =
     [if toBJJSign then 1 else 0] @ [Fee tx] @
     bigEndian 5 (unat (Nonce tx)) @
     bigEndian 4 (unat (TokenID tx)) @
     bigEndian 2 (unat amountFloat16) @
     bigEndian 6 (unat (ToIdx tx)) @
     bigEndian 6 (unat (FromIdx tx)) @
     bigEndian 2 (unat chainID) @
     SignatureConstantBytes c"

definition newFloat16Small :: "int option \<Rightarrow> api_error + 16 word" where
  "newFloat16Small amount =
     (case amount of
        None \<Rightarrow> Inl PanicNilPointer
      | Some a \<Rightarrow> if 0 \<le> a \<and> a < 1024 then Inr (of_int a) else Inl (ErrExternal ''not covered''))"

definition unpackSignYStub :: "PublicKeyComp \<Rightarrow> bool \<times> nat" where
  "unpackSignYStub pk = (pk \<noteq> 0, unat pk)"

section \<open>The request graph of a submission, as the specification words it\<close>

text \<open>
  The directed graph on the positions of a submission with an edge from each transaction
  to the transaction named by its \<open>RqTxID\<close>: from \<open>i\<close> to every position \<open>j\<close> whose
  \<open>TxID\<close> is the \<open>RqTxID\<close> of \<open>i\<close>. \<open>rqInside\<close>: every \<open>RqTxID\<close> is non-empty and is
  the \<open>TxID\<close> of a member. \<open>singleComponent\<close>: the graph has exactly one strongly
  connected component and it covers all positions, that is, there is a position and
  every position reaches every position.
\<close>

definition rqGraph :: "PoolL2Tx list \<Rightarrow> (nat \<times> nat) set" where
  "rqGraph txs =
     {(i, j). i < length txs \<and> j < length txs \<and> TxID (txs ! j) = RqTxID (txs ! i)}"

definition rqInside :: "PoolL2Tx list \<Rightarrow> bool" where
  "rqInside txs \<longleftrightarrow>
     (\<forall>tx\<in>set txs. RqTxID tx \<noteq> EmptyTxID \<and> RqTxID tx \<in> TxID ` set txs)"

definition singleComponent :: "nat \<Rightarrow> (nat \<times> nat) set \<Rightarrow> bool" where
  "singleComponent n E \<longleftrightarrow> 0 < n \<and> (\<forall>i<n. \<forall>j<n. (i, j) \<in> E\<^sup>*)"

definition txA :: PoolL2Tx where
  "txA = emptyPoolL2Tx\<lparr>TxID := [2, 0, 0, 0, 0, 1, 0, 0, 0, 0, 0, 0], FromIdx := 256,
     RqTxID := [2, 0, 0, 0, 0, 1, 1, 0, 0, 0, 0, 0]\<rparr>"

definition txB :: PoolL2Tx where
  "txB = emptyPoolL2Tx\<lparr>TxID := [2, 0, 0, 0, 0, 1, 1, 0, 0, 0, 0, 0], FromIdx := 257,
     RqTxID := [2, 0, 0, 0, 0, 1, 2, 0, 0, 0, 0, 0]\<rparr>"

definition txC :: PoolL2Tx where
  "txC = emptyPoolL2Tx\<lparr>TxID := [2, 0, 0, 0, 0, 1, 2, 0, 0, 0, 0, 0], FromIdx := 258,
     RqTxID := [2, 0, 0, 0, 0, 1, 0, 0, 0, 0, 0, 0]\<rparr>"

definition txCOutside :: PoolL2Tx where
  "txCOutside = txC\<lparr>RqTxID := [2, 0, 0, 0, 0, 1, 9, 0, 0, 0, 0, 0]\<rparr>"

text \<open>A submission with a repeated identifier: \<open>txBBack\<close> requests \<open>txA\<close>, and \<open>txATwin\<close>
  has the sender and the nonce of \<open>txA\<close>, hence its \<open>TxID\<close>, and another recipient.\<close>

definition txBBack :: PoolL2Tx where
  "txBBack = txB\<lparr>RqTxID := [2, 0, 0, 0, 0, 1, 0, 0, 0, 0, 0, 0]\<rparr>"

definition txATwin :: PoolL2Tx where
  "txATwin = txA\<lparr>ToIdx := 300\<rparr>"

text \<open>The edges that \<open>isSingleAtomicGroup\<close> adds to its graph when no request fails.\<close>

definition codeGraph :: "PoolL2Tx list \<Rightarrow> (nat \<times> nat) set" where
  "codeGraph txs = set (map (\<lambda>(i, tx). (i, the (idToPos txs (RqTxID tx)))) (enumerate 0 txs))"

section \<open>txprocessor: effective amounts of an L1 transaction\<close>

text \<open>
  Modelled from the spec: \<open>computeEffectiveAmounts\<close> is declared outside the embedded
  files (only its test, \<open>TestComputeEffectiveAmounts\<close>, is among them). The specification
  gives the rules, applied in order to a user-origin transaction, each failed predicate
  zeroing \<open>EffectiveAmount\<close>: (1) \<open>EffectiveDepositAmount := DepositAmount\<close>
  unconditionally; (2) if the sender is a pre-existing account, \<open>FromEthAddr\<close> must be
  its \<open>EthAddr\<close>; (3) the \<open>TokenID\<close> of the transaction must be that of the sender
  and, if specified, of the recipient account; (4) the pre-existing balance of the sender
  plus \<open>EffectiveDepositAmount\<close> must be at least \<open>Amount\<close>; (5) for DepositTransfer and
  CreateAccountDepositTransfer the recipient account must exist. The rules concern
  user-origin transactions; the amounts of a coordinator transaction are taken as they are.
  The state is the account store, a map from \<open>Idx\<close> to accounts; the sender is
  pre-existing when \<open>FromIdx\<close> is not 0 and has an account, the recipient is specified
  when \<open>ToIdx\<close> is a user index.
\<close>

type_synonym AccountStore = "Idx \<Rightarrow> Account option"

definition senderAccount :: "AccountStore \<Rightarrow> L1Tx \<Rightarrow> Account option" where
  "senderAccount accounts tx =
     (if L1Tx.FromIdx tx = 0 then None else accounts (L1Tx.FromIdx tx))"

definition recipientSpecified :: "Consts \<Rightarrow> L1Tx \<Rightarrow> bool" where
  "recipientSpecified c tx \<longleftrightarrow> IdxUserThreshold c \<le> L1Tx.ToIdx tx"

definition senderBalance :: "AccountStore \<Rightarrow> L1Tx \<Rightarrow> int" where
  "senderBalance accounts tx =
     (case senderAccount accounts tx of None \<Rightarrow> 0 | Some a \<Rightarrow> Balance a)"

definition computeEffectiveAmounts :: "Consts \<Rightarrow> AccountStore \<Rightarrow> L1Tx \<Rightarrow> L1Tx" where
  "computeEffectiveAmounts c accounts tx =
     (if \<not> UserOrigin tx
      then tx\<lparr>EffectiveAmount := Some (L1Tx.Amount tx),
              EffectiveDepositAmount := Some (DepositAmount tx)\<rparr>
      else
        (let effectiveDepositAmount = DepositAmount tx;
             sender = senderAccount accounts tx;
             recipient = (if recipientSpecified c tx then accounts (L1Tx.ToIdx tx) else None);
             ethAddrOk = (case sender of None \<Rightarrow> True
                          | Some a \<Rightarrow> FromEthAddr tx = EthAddr a);
             tokenOk = ((case sender of None \<Rightarrow> True
                         | Some a \<Rightarrow> L1Tx.TokenID tx = Account.TokenID a) \<and>
                        (case recipient of None \<Rightarrow> True
                         | Some a \<Rightarrow> L1Tx.TokenID tx = Account.TokenID a));
             balanceOk = (L1Tx.Amount tx \<le> senderBalance accounts tx + effectiveDepositAmount);
             recipientOk = (L1Tx.Type tx = TxTypeDepositTransfer \<or>
                            L1Tx.Type tx = TxTypeCreateAccountDepositTransfer
                              \<longrightarrow> recipient \<noteq> None)
         in tx\<lparr>EffectiveAmount :=
                  Some (if ethAddrOk \<and> tokenOk \<and> balanceOk \<and> recipientOk
                        then L1Tx.Amount tx else 0),
                EffectiveDepositAmount := Some effectiveDepositAmount\<rparr>))"

text \<open>The state and the transactions of \<open>TestComputeEffectiveAmounts\<close>: accounts A and B
  for token 0 and C for token 1, each with balance 10.\<close>

definition testAccounts :: AccountStore where
  "testAccounts =
     [256 \<mapsto> \<lparr>Idx = 256, TokenID = 0, Nonce = 0, Balance = 10, BJJ = 1, EthAddr = 10\<rparr>,
      257 \<mapsto> \<lparr>Idx = 257, TokenID = 0, Nonce = 0, Balance = 10, BJJ = 2, EthAddr = 11\<rparr>,
      258 \<mapsto> \<lparr>Idx = 258, TokenID = 1, Nonce = 0, Balance = 10, BJJ = 3, EthAddr = 12\<rparr>]"

definition testL1Tx :: "Idx \<Rightarrow> Idx \<Rightarrow> int \<Rightarrow> int \<Rightarrow> Address \<Rightarrow> TokenID \<Rightarrow> TxType \<Rightarrow> L1Tx" where
  "testL1Tx fromIdx toIdx amount depositAmount fromEthAddr tokenID type =
     \<lparr>Position = 0, UserOrigin = True, FromIdx = fromIdx, ToIdx = toIdx,
      FromEthAddr = fromEthAddr, FromBJJ = 0, TokenID = tokenID, Amount = amount,
      DepositAmount = depositAmount, EffectiveAmount = None, EffectiveDepositAmount = None,
      Type = type\<rparr>"

definition effectiveAmounts :: "L1Tx \<Rightarrow> int option \<times> int option" where
  "effectiveAmounts tx = (EffectiveDepositAmount tx, EffectiveAmount tx)"

section \<open>txselector: ordering of the pool transactions\<close>

text \<open>
  A Go map read with a missing key yields the zero value: \<open>lookupFee\<close>. The map from
  group identifiers to member lists is an association list in insertion order. Two
  library behaviours are left open by their contracts and are arguments of \<open>sortL2Txs\<close>:
  the order in which \<open>range\<close> visits a map (\<open>mapRange\<close>, any permutation of the entries)
  and the unstable \<open>sort.Slice\<close> (\<open>sortSlice\<close>, any sorted permutation).
  \<open>sort.SliceStable\<close> is determined by its contract: the stable sort, here by descending
  group fee.
\<close>

definition lookupFee :: "(AtomicGroupID \<Rightarrow> real option) \<Rightarrow> AtomicGroupID \<Rightarrow> real" where
  "lookupFee m g = (case m g of None \<Rightarrow> 0 | Some fee \<Rightarrow> fee)"

fun appendToGroup ::
  "PoolL2Tx \<Rightarrow> (AtomicGroupID \<times> PoolL2Tx list) list \<Rightarrow> (AtomicGroupID \<times> PoolL2Tx list) list" where
  "appendToGroup tx [] = [(AtomicGroupID tx, [] @ [tx])]"
| "appendToGroup tx ((groupID, txs) # rest) =
     (if groupID = AtomicGroupID tx then (groupID, txs @ [tx]) # rest
      else (groupID, txs) # appendToGroup tx rest)"

text \<open>The first loop of \<open>sortL2Txs\<close>: the state is the pair of \<open>atomicGroupsMap\<close> and
  \<open>nonAtomicTxs\<close>.\<close>

definition separateAtomicTxs ::
  "PoolL2Tx list \<Rightarrow> (AtomicGroupID \<times> PoolL2Tx list) list \<times> PoolL2Tx list" where
  "separateAtomicTxs l2Txs =
     fold (\<lambda>tx (atomicGroupsMap, nonAtomicTxs).
             if AtomicGroupID tx \<noteq> EmptyAtomicGroupID
             then (appendToGroup tx atomicGroupsMap, nonAtomicTxs)
             else (atomicGroupsMap, nonAtomicTxs @ [tx]))
          l2Txs ([], [])"

text \<open>The comparison functions handed to \<open>sort.SliceStable\<close> and \<open>sort.Slice\<close>.\<close>

definition groupFee :: "(AtomicGroupID \<Rightarrow> real option) \<Rightarrow> PoolL2Tx list \<Rightarrow> real" where
  "groupFee atomicGroupsFee g = lookupFee atomicGroupsFee (AtomicGroupID (hd g))"

definition nonAtomicLess :: "PoolL2Tx \<Rightarrow> PoolL2Tx \<Rightarrow> bool" where
  "nonAtomicLess a b =
     (if AbsoluteFee a \<noteq> AbsoluteFee b then AbsoluteFee b < AbsoluteFee a
      else if FromIdx a \<noteq> FromIdx b then FromIdx a < FromIdx b
      else Nonce a < Nonce b)"

text \<open>The merge loop and the two loops that append the rest.\<close>

fun mergeTxs ::
  "(AtomicGroupID \<Rightarrow> real option) \<Rightarrow> PoolL2Tx list \<Rightarrow> PoolL2Tx list list \<Rightarrow> PoolL2Tx list" where
  "mergeTxs atomicGroupsFee [] atomicGroups = concat atomicGroups"
| "mergeTxs atomicGroupsFee nonAtomicTxs [] = nonAtomicTxs"
| "mergeTxs atomicGroupsFee (tx # nonAtomicTxs) (g # atomicGroups) =
     (if groupFee atomicGroupsFee g < AbsoluteFee tx
      then tx # mergeTxs atomicGroupsFee nonAtomicTxs (g # atomicGroups)
      else g @ mergeTxs atomicGroupsFee (tx # nonAtomicTxs) atomicGroups)"

definition sortL2Txs ::
  "((PoolL2Tx \<Rightarrow> PoolL2Tx \<Rightarrow> bool) \<Rightarrow> PoolL2Tx list \<Rightarrow> PoolL2Tx list) \<Rightarrow>
   ((AtomicGroupID \<times> PoolL2Tx list) list \<Rightarrow> (AtomicGroupID \<times> PoolL2Tx list) list) \<Rightarrow>
   PoolL2Tx list \<Rightarrow> (AtomicGroupID \<Rightarrow> real option) \<Rightarrow> PoolL2Tx list" where
  "sortL2Txs sortSlice mapRange l2Txs atomicGroupsFee =
     (case separateAtomicTxs l2Txs of
        (atomicGroupsMap, nonAtomicTxs) \<Rightarrow>
          (let atomicGroups = map snd (mapRange atomicGroupsMap);
               atomicGroups' = sort_key (\<lambda>g. - groupFee atomicGroupsFee g) atomicGroups;
               nonAtomicTxs' = sortSlice nonAtomicLess nonAtomicTxs
           in mergeTxs atomicGroupsFee nonAtomicTxs' atomicGroups'))"

text \<open>The contracts of the two library behaviours.\<close>

definition sortSliceContract ::
  "((PoolL2Tx \<Rightarrow> PoolL2Tx \<Rightarrow> bool) \<Rightarrow> PoolL2Tx list \<Rightarrow> PoolL2Tx list) \<Rightarrow> bool" where
  "sortSliceContract sortSlice \<longleftrightarrow>
     (\<forall>xs. mset (sortSlice nonAtomicLess xs) = mset xs \<and>
           sorted_wrt (\<lambda>a b. \<not> nonAtomicLess b a) (sortSlice nonAtomicLess xs))"

definition mapRangeContract ::
  "((AtomicGroupID \<times> PoolL2Tx list) list \<Rightarrow> (AtomicGroupID \<times> PoolL2Tx list) list) \<Rightarrow> bool" where
  "mapRangeContract mapRange \<longleftrightarrow> (\<forall>m. mset (mapRange m) = mset m)"

text \<open>An insertion sort, one implementation of the contract of \<open>sort.Slice\<close>.\<close>

fun insertBy :: "('a \<Rightarrow> 'a \<Rightarrow> bool) \<Rightarrow> 'a \<Rightarrow> 'a list \<Rightarrow> 'a list" where
  "insertBy lt x [] = [x]"
| "insertBy lt x (y # ys) = (if lt x y then x # y # ys else y # insertBy lt x ys)"

definition insertionSort :: "('a \<Rightarrow> 'a \<Rightarrow> bool) \<Rightarrow> 'a list \<Rightarrow> 'a list" where
  "insertionSort lt xs = foldr (insertBy lt) xs []"

text \<open>
  The order of the claim. \<open>byFeeIdxNonce a b\<close>: \<open>a\<close> may stand before \<open>b\<close> when
  sorting by \<open>AbsoluteFee\<close> descending, then \<open>FromIdx\<close> ascending, then \<open>Nonce\<close>
  ascending. \<open>mergedByFee\<close>: a non-atomic transaction stands before an atomic one only
  if its fee is greater than the fee of that group, and after it only if its fee is not
  greater.
\<close>

definition byFeeIdxNonce :: "PoolL2Tx \<Rightarrow> PoolL2Tx \<Rightarrow> bool" where
  "byFeeIdxNonce a b \<longleftrightarrow>
     AbsoluteFee b < AbsoluteFee a \<or>
     (AbsoluteFee a = AbsoluteFee b \<and>
        (FromIdx a < FromIdx b \<or> (FromIdx a = FromIdx b \<and> Nonce a \<le> Nonce b)))"

definition isAtomicTx :: "PoolL2Tx \<Rightarrow> bool" where
  "isAtomicTx tx \<longleftrightarrow> AtomicGroupID tx \<noteq> EmptyAtomicGroupID"

definition mergedByFee :: "(AtomicGroupID \<Rightarrow> real option) \<Rightarrow> PoolL2Tx \<Rightarrow> PoolL2Tx \<Rightarrow> bool" where
  "mergedByFee atomicGroupsFee a b \<longleftrightarrow>
     (\<not> isAtomicTx a \<and> isAtomicTx b \<longrightarrow>
        lookupFee atomicGroupsFee (AtomicGroupID b) < AbsoluteFee a) \<and>
     (isAtomicTx a \<and> \<not> isAtomicTx b \<longrightarrow>
        AbsoluteFee b \<le> lookupFee atomicGroupsFee (AtomicGroupID a))"

definition txN1 :: PoolL2Tx where
  "txN1 = emptyPoolL2Tx\<lparr>FromIdx := 256, AbsoluteFee := 1\<rparr>"

definition txN2 :: PoolL2Tx where
  "txN2 = emptyPoolL2Tx\<lparr>FromIdx := 257, AbsoluteFee := 3\<rparr>"

definition txN3 :: PoolL2Tx where
  "txN3 = emptyPoolL2Tx\<lparr>FromIdx := 258, AbsoluteFee := 2\<rparr>"

definition txG1 :: PoolL2Tx where
  "txG1 = emptyPoolL2Tx\<lparr>FromIdx := 259, AbsoluteFee := 1, AtomicGroupID := 7, RqOffset := 1\<rparr>"

definition txG2 :: PoolL2Tx where
  "txG2 = emptyPoolL2Tx\<lparr>FromIdx := 260, AbsoluteFee := 3, AtomicGroupID := 7, RqOffset := 7\<rparr>"

definition feeG :: "AtomicGroupID \<Rightarrow> real option" where
  "feeG = [7 \<mapsto> 2]"

text \<open>
  \<open>calculateAtomicGroupsAverageFee\<close>: the sum of the fees and the number of members per
  group, then the quotient. A \<open>float64\<close> is the real number it denotes; the two \<open>float64\<close>
  operations of the function, the addition and the division with their rounding, are the
  parameters \<open>addFloat64\<close> and \<open>divFloat64\<close>. The number of members is converted as it
  is. The examples have small whole fees, sums and quotients, on which the two operations
  are exact: there they are the addition and the division of the reals.
\<close>

definition calculateAtomicGroupsAverageFee ::
  "(real \<Rightarrow> real \<Rightarrow> real) \<Rightarrow> (real \<Rightarrow> real \<Rightarrow> real) \<Rightarrow> PoolL2Tx list \<Rightarrow>
   AtomicGroupID \<Rightarrow> real option" where
  "calculateAtomicGroupsAverageFee addFloat64 divFloat64 txs =
     (case fold (\<lambda>tx (groupAverageFee, txsPerGroup).
                   let groupID = AtomicGroupID tx in
                   if groupID = EmptyAtomicGroupID then (groupAverageFee, txsPerGroup)
                   else
                     (case groupAverageFee groupID of
                        None \<Rightarrow> (groupAverageFee(groupID \<mapsto> AbsoluteFee tx),
                                 txsPerGroup(groupID := (1 :: nat)))
                      | Some fee \<Rightarrow> (groupAverageFee(groupID \<mapsto> addFloat64 fee (AbsoluteFee tx)),
                                     txsPerGroup(groupID := txsPerGroup groupID + 1))))
               txs (Map.empty, \<lambda>groupID. 0) of
        (groupAverageFee, txsPerGroup) \<Rightarrow>
          (\<lambda>groupID. case groupAverageFee groupID of
                        None \<Rightarrow> None
                      | Some fee \<Rightarrow> Some (divFloat64 fee (real (txsPerGroup groupID)))))"

definition txG3 :: PoolL2Tx where
  "txG3 = emptyPoolL2Tx\<lparr>FromIdx := 261, AbsoluteFee := 2, AtomicGroupID := 7, RqOffset := 1\<rparr>"

text \<open>The invariant of the first loop of \<open>sortL2Txs\<close>: the keys are distinct, and the
  entry of a group holds its members in the order of the input.\<close>

definition groupsInv :: "PoolL2Tx list \<Rightarrow> (AtomicGroupID \<times> PoolL2Tx list) list \<Rightarrow> bool" where
  "groupsInv xs m \<longleftrightarrow>
     distinct (map fst m) \<and>
     (\<forall>g. map_of m g =
        (if g \<noteq> EmptyAtomicGroupID \<and> (\<exists>t\<in>set xs. AtomicGroupID t = g)
         then Some (filter (\<lambda>t. AtomicGroupID t = g) xs) else None))"

section \<open>txselector: selection of the transactions of a batch\<close>

record Config =
  NLevels :: "32 word"
  MaxFeeTx :: "32 word"
  MaxTx :: "32 word"
  MaxL1Tx :: "32 word"
  ChainID :: "16 word"

text \<open>The two capacity tests. Go's \<open>int\<close> counters are integers; \<open>int(selectionConfig.MaxTx)\<close>
  is the unsigned value of the 32-bit field.\<close>

definition canAddL2TxThatNeedsNewCoordL1Tx :: "int \<Rightarrow> int \<Rightarrow> Config \<Rightarrow> bool" where
  "canAddL2TxThatNeedsNewCoordL1Tx nAddedL1Txs nAddedL2txs selectionConfig \<longleftrightarrow>
     nAddedL1Txs < uint (MaxL1Tx selectionConfig) \<and>
     nAddedL1Txs + nAddedL2txs + 1 < uint (MaxTx selectionConfig)"

definition canAddL2Tx :: "int \<Rightarrow> int \<Rightarrow> Config \<Rightarrow> bool" where
  "canAddL2Tx nAddedL1Txs nAddedL2txs selectionConfig \<longleftrightarrow>
     nAddedL1Txs + nAddedL2txs < uint (MaxTx selectionConfig)"

record CoordAccount =
  Addr :: Address
  CoordBJJ :: PublicKeyComp
  AccountCreationAuth :: "byte list"

record TxSelectorError =
  Message :: string
  Code :: int
  ErrType :: string

record failedAtomicGroup =
  groupID :: AtomicGroupID
  failedTxID :: TxID
  reason :: TxSelectorError

datatype idxLookup = IdxFound Idx | ErrIdxNotFound | IdxLookupError string

text \<open>What the verifier finds for one transaction in the current state: it can be forged
  now, it may become forgeable later in this selection, or it can never be forged as it
  is.\<close>

datatype verdict = Selectable | NotYetSelectable TxSelectorError | Unforjable TxSelectorError

text \<open>
  The collaborators of the selector, declared outside the embedded files, with the state
  \<open>'s\<close> of the local account database and of the transaction processor: the account
  store seen through \<open>accountsOf\<close> (\<open>GetAccount\<close>), the mutations \<open>applyL1Tx\<close>,
  \<open>ProcessL2Tx\<close>, \<open>UpdateAccount\<close>, \<open>MakeCheckpoint\<close> and \<open>Reset\<close>, the pool read
  \<open>GetPendingTxs\<close> (by attempt: the pool may change between two reads), the index lookup
  \<open>GetIdxByEthAddrBJJ\<close>, the accumulated fees, the texts and codes of the annotations, the
  open library behaviours of the ordering (the order of a \<open>range\<close> over a map, the
  unstable sort) and the two \<open>float64\<close> operations of the mean fee. The last two fields
  are the judgements of the verifier on one transaction.
\<close>

record 's Selector =
  coordAccount :: CoordAccount
  selConsts :: Consts
  accountsOf :: "'s \<Rightarrow> AccountStore"
  applyL1Tx :: "'s \<Rightarrow> L1Tx \<Rightarrow> string + 's"
  ProcessL2Tx :: "'s \<Rightarrow> PoolL2Tx \<Rightarrow> string + 's"
  UpdateAccount :: "'s \<Rightarrow> Idx \<Rightarrow> Account \<Rightarrow> string + 's"
  MakeCheckpoint :: "'s \<Rightarrow> string + 's"
  Reset :: "'s \<Rightarrow> string + 's"
  GetPendingTxs :: "nat \<Rightarrow> string + PoolL2Tx list"
  GetIdxByEthAddrBJJ :: "'s \<Rightarrow> Address \<Rightarrow> PublicKeyComp \<Rightarrow> TokenID \<Rightarrow> idxLookup"
  AccumulatedFees :: "'s \<Rightarrow> (Idx \<times> int) list"
  ErrInvalidAtomicGroup :: string
  ErrInvalidAtomicGroupCode :: int
  ErrInvalidAtomicGroupType :: string
  ErrNoAvailableSlots :: TxSelectorError
  sprintfUnselectable :: "AtomicGroupID \<Rightarrow> TxID \<Rightarrow> string \<Rightarrow> string"
  rangeOverGroups :: "(AtomicGroupID \<times> PoolL2Tx list) list \<Rightarrow> (AtomicGroupID \<times> PoolL2Tx list) list"
  rangeOverSortedGroups :: "(AtomicGroupID \<times> PoolL2Tx list) list \<Rightarrow> (AtomicGroupID \<times> PoolL2Tx list) list"
  sortSliceBy :: "(PoolL2Tx \<Rightarrow> PoolL2Tx \<Rightarrow> bool) \<Rightarrow> PoolL2Tx list \<Rightarrow> PoolL2Tx list"
  addFloat64 :: "real \<Rightarrow> real \<Rightarrow> real"
  divFloat64 :: "real \<Rightarrow> real \<Rightarrow> real"
  verifyTx :: "'s \<Rightarrow> L1Tx list \<Rightarrow> PoolL2Tx \<Rightarrow> verdict"
  recipientNeedsAccount :: "'s \<Rightarrow> L1Tx list \<Rightarrow> PoolL2Tx \<Rightarrow> (L1Tx \<times> byte list) option"

definition GetAccount :: "'s Selector \<Rightarrow> 's \<Rightarrow> Idx \<Rightarrow> string + Account" where
  "GetAccount sel s idx =
     (case accountsOf sel s idx of None \<Rightarrow> Inl ''account not found'' | Some a \<Rightarrow> Inr a)"

definition getCoordIdx :: "'s Selector \<Rightarrow> 's \<Rightarrow> TokenID \<Rightarrow> idxLookup" where
  "getCoordIdx sel s tokenID =
     GetIdxByEthAddrBJJ sel s (Addr (coordAccount sel)) (CoordBJJ (coordAccount sel)) tokenID"

text \<open>\<open>coordAccountForTokenID\<close>: the transaction that creates the coordinator account of a
  token, when that account does not exist.\<close>

definition coordAccountForTokenID ::
  "'s Selector \<Rightarrow> 's \<Rightarrow> TokenID \<Rightarrow> int \<Rightarrow> string + L1Tx option \<times> int" where
  "coordAccountForTokenID sel s tokenID positionL1 =
     (case getCoordIdx sel s tokenID of
        ErrIdxNotFound \<Rightarrow>
          Inr (Some \<lparr>Position = positionL1, UserOrigin = False, FromIdx = 0, ToIdx = 0,
                     FromEthAddr = Addr (coordAccount sel), FromBJJ = CoordBJJ (coordAccount sel),
                     TokenID = tokenID, Amount = 0, DepositAmount = 0,
                     EffectiveAmount = None, EffectiveDepositAmount = None,
                     Type = TxTypeCreateAccountDeposit\<rparr>, positionL1)
      | IdxLookupError err \<Rightarrow> Inl err
      | IdxFound idx \<Rightarrow> Inr (None, positionL1))"

text \<open>
  Modelled from the spec: \<open>ProcessL1Tx\<close> is declared outside the embedded files. The
  processor computes the effective amounts of the transaction it is handed (by pointer)
  before it mutates the state; the result is the new state and the transaction as
  \<open>ProcessL1Tx\<close> leaves it.
\<close>

definition ProcessL1Tx :: "'s Selector \<Rightarrow> 's \<Rightarrow> L1Tx \<Rightarrow> string + 's \<times> L1Tx" where
  "ProcessL1Tx sel s tx =
     (let tx' = computeEffectiveAmounts (selConsts sel) (accountsOf sel s) tx in
      case applyL1Tx sel s tx' of Inl err \<Rightarrow> Inl err | Inr s' \<Rightarrow> Inr (s', tx'))"

subsection \<open>The two filters\<close>

definition setInfoForFailedAtomicTx ::
  "'s Selector \<Rightarrow> bool \<Rightarrow> AtomicGroupID \<Rightarrow> TxID \<Rightarrow> TxSelectorError \<Rightarrow> TxSelectorError" where
  "setInfoForFailedAtomicTx sel isOriginOfFailure failedAtomicGroupID failedTxID' failMessage =
     (if isOriginOfFailure
      then \<lparr>Message = Message failMessage, Code = Code failMessage, ErrType = ErrType failMessage\<rparr>
      else \<lparr>Message = sprintfUnselectable sel failedAtomicGroupID failedTxID' (Message failMessage),
            Code = ErrInvalidAtomicGroupCode sel, ErrType = ErrInvalidAtomicGroupType sel\<rparr>)"

definition filterFailedAtomicGroups ::
  "'s Selector \<Rightarrow> PoolL2Tx list \<Rightarrow> (AtomicGroupID \<Rightarrow> failedAtomicGroup option) \<Rightarrow>
   PoolL2Tx list \<times> PoolL2Tx list" where
  "filterFailedAtomicGroups sel txs failedGroups =
     fold (\<lambda>tx (txsToProcess, filteredTxs).
             if AtomicGroupID tx = EmptyAtomicGroupID then (txsToProcess @ [tx], filteredTxs)
             else
               (case failedGroups (AtomicGroupID tx) of
                  Some failedAtomicGroup \<Rightarrow>
                    (let obj = setInfoForFailedAtomicTx sel
                                 (TxID tx = failedTxID failedAtomicGroup) (AtomicGroupID tx)
                                 (failedTxID failedAtomicGroup) (reason failedAtomicGroup)
                     in (txsToProcess,
                         filteredTxs @ [tx\<lparr>Info := Message obj, ErrorCode := Code obj,
                                           ErrorType := ErrType obj\<rparr>]))
                | None \<Rightarrow> (txsToProcess @ [tx], filteredTxs)))
          txs ([], [])"

definition filterInvalidAtomicGroups ::
  "'s Selector \<Rightarrow> PoolL2Tx list \<Rightarrow> PoolL2Tx list \<times> PoolL2Tx list" where
  "filterInvalidAtomicGroups sel txs =
     (case fold (\<lambda>tx (txsToProcess, atomicGroups).
                   if AtomicGroupID tx = EmptyAtomicGroupID then (txsToProcess @ [tx], atomicGroups)
                   else (txsToProcess, appendToGroup tx atomicGroups))
                txs ([], []) of
        (txsToProcess0, atomicGroups) \<Rightarrow>
          fold (\<lambda>(groupID', groupTxs) (txsToProcess, filteredTxs).
                  if \<not> isAtomicGroupValid \<lparr>Txs = groupTxs\<rparr>
                  then (txsToProcess,
                        filteredTxs @ map (\<lambda>tx. tx\<lparr>Info := ErrInvalidAtomicGroup sel,
                                                    ErrorType := ErrInvalidAtomicGroupType sel,
                                                    ErrorCode := ErrInvalidAtomicGroupCode sel\<rparr>)
                                          groupTxs)
                  else (txsToProcess @ groupTxs, filteredTxs))
               (rangeOverGroups sel atomicGroups) (txsToProcess0, []))"

subsection \<open>The state of the selection loop and the cases of its \<open>select\<close>\<close>

record Selection =
  coordIdxs :: "Idx list"
  accCreationAuths :: "byte list list"
  l1UserTxs :: "L1Tx list"
  l1CoordinatorTxs :: "L1Tx list"
  selL2Txs :: "PoolL2Tx list"
  discardedL2Txs :: "PoolL2Tx list"

record 's loopState =
  stateDB :: 's
  l1UserTxs :: "L1Tx list"
  accAuths :: "byte list list"
  l1CoordinatorTxs :: "L1Tx list"
  selectedTxs :: "PoolL2Tx list"
  nonSelectedTxs :: "PoolL2Tx list"
  iteSelectedTxs :: "PoolL2Tx list"
  coordIdxs :: "Idx list"
  coordIdxsMap :: "TokenID \<Rightarrow> Idx option"
  discardedTxs :: "PoolL2Tx list"

text \<open>\<open>case tx := <-verifier.txsL1ToBeProcessedChan\<close>\<close>

definition onTxL1ToBeProcessed ::
  "'s Selector \<Rightarrow> 's loopState \<Rightarrow> L1Tx \<Rightarrow> string + 's loopState" where
  "onTxL1ToBeProcessed sel ls tx =
     (case ProcessL1Tx sel (stateDB ls) tx of
        Inl err \<Rightarrow> Inl err
      | Inr (s', tx') \<Rightarrow> Inr (ls\<lparr>stateDB := s', l1CoordinatorTxs := l1CoordinatorTxs ls @ [tx']\<rparr>))"

text \<open>\<open>case tx := <-verifier.nonSelectedL2TxsChan\<close>\<close>

definition onNonSelectedL2Tx :: "'s loopState \<Rightarrow> PoolL2Tx \<Rightarrow> 's loopState" where
  "onNonSelectedL2Tx ls tx = ls\<lparr>nonSelectedTxs := nonSelectedTxs ls @ [tx]\<rparr>"

text \<open>\<open>case tx := <-verifier.selectedL2TxsChan\<close>\<close>

definition onSelectedL2Tx ::
  "'s Selector \<Rightarrow> 's loopState \<Rightarrow> PoolL2Tx \<Rightarrow> string + 's loopState" where
  "onSelectedL2Tx sel ls tx =
     (let ls1 = ls\<lparr>iteSelectedTxs := iteSelectedTxs ls @ [tx],
                    selectedTxs := selectedTxs ls @ [tx]\<rparr> in
      case GetAccount sel (stateDB ls1) (FromIdx tx) of
        Inl err \<Rightarrow> Inl err
      | Inr accSender \<Rightarrow>
          (let tokenID = Account.TokenID accSender in
           case getCoordIdx sel (stateDB ls1) tokenID of
             ErrIdxNotFound \<Rightarrow> Inl ''idx not found''
           | IdxLookupError err \<Rightarrow> Inl err
           | IdxFound coordIdx \<Rightarrow>
               (case coordIdxsMap ls1 tokenID of
                  None \<Rightarrow> Inr (ls1\<lparr>coordIdxsMap := (coordIdxsMap ls1)(tokenID \<mapsto> coordIdx),
                                     coordIdxs := coordIdxs ls1 @ [coordIdx]\<rparr>)
                | Some idx \<Rightarrow> Inr ls1)))"

text \<open>\<open>case tx := <-verifier.unforjableL2TxsChan\<close> and \<open>case accAuth := <-verifier.accAuthsChan\<close>\<close>

definition onUnforjableL2Tx :: "'s loopState \<Rightarrow> PoolL2Tx \<Rightarrow> 's loopState" where
  "onUnforjableL2Tx ls tx = ls\<lparr>discardedTxs := discardedTxs ls @ [tx]\<rparr>"

definition onAccAuth :: "'s loopState \<Rightarrow> byte list \<Rightarrow> 's loopState" where
  "onAccAuth ls accAuth = ls\<lparr>accAuths := accAuths ls @ [accAuth]\<rparr>"

text \<open>The end of the selection, \<open>case <-verifier.verificationEnded\<close> with no transaction
  selected in the last pass: the fees go to the coordinator accounts, then the checkpoint.\<close>

fun distributeFees :: "'s Selector \<Rightarrow> (Idx \<times> int) list \<Rightarrow> 's \<Rightarrow> string + 's" where
  "distributeFees sel [] s = Inr s"
| "distributeFees sel ((idx, accumulatedFee) # fees) s =
     (if 0 < accumulatedFee then
        (case GetAccount sel s idx of
           Inl err \<Rightarrow> Inl err
         | Inr accCoord \<Rightarrow>
             (case UpdateAccount sel s idx
                     (accCoord\<lparr>Balance := Balance accCoord + accumulatedFee\<rparr>) of
                Inl err \<Rightarrow> Inl err
              | Inr s' \<Rightarrow> distributeFees sel fees s'))
      else distributeFees sel fees s)"

definition finishSelection :: "'s Selector \<Rightarrow> 's loopState \<Rightarrow> string + Selection \<times> 's" where
  "finishSelection sel ls =
     (let discardedTxs' = discardedTxs ls @ nonSelectedTxs ls;
          coordIdxs' = sort (coordIdxs ls) in
      case distributeFees sel (AccumulatedFees sel (stateDB ls)) (stateDB ls) of
        Inl err \<Rightarrow> Inl err
      | Inr s' \<Rightarrow>
          (case MakeCheckpoint sel s' of
             Inl err \<Rightarrow> Inl err
           | Inr s'' \<Rightarrow>
               Inr (\<lparr>Selection.coordIdxs = coordIdxs', accCreationAuths = accAuths ls,
                     Selection.l1UserTxs = loopState.l1UserTxs ls,
                     Selection.l1CoordinatorTxs = loopState.l1CoordinatorTxs ls,
                     selL2Txs = selectedTxs ls, discardedL2Txs = discardedTxs'\<rparr>, s'')))"

subsection \<open>The verifier\<close>

text \<open>
  Modelled from the spec: the verifier (\<open>newVerifier\<close>, \<open>verifyTxs\<close> and the stages it
  chains) is declared outside the embedded files. The selection takes the transactions in
  order, one at a time; for each one it checks that the batch has room for one more
  transaction, judges it in the current state, creates the coordinator account of its
  token and the account of its recipient when they are missing and the batch has room for
  one more coordinator transaction, and then processes and selects it. A transaction that
  fails is kept for the next pass or discarded; when it belongs to an atomic group the
  group fails and the selection starts again. What the verifier sends on its channels is
  handled, in that order, by the cases of the \<open>select\<close> above.
\<close>

datatype 's step = Next "'s loopState" | FailedAG failedAtomicGroup "'s loopState" | Fatal string

definition nAddedL1Txs :: "'s loopState \<Rightarrow> int" where
  "nAddedL1Txs ls = int (length (loopState.l1UserTxs ls) + length (loopState.l1CoordinatorTxs ls))"

definition nAddedL2Txs :: "'s loopState \<Rightarrow> int" where
  "nAddedL2Txs ls = int (length (selectedTxs ls))"

definition rejectTx :: "'s loopState \<Rightarrow> PoolL2Tx \<Rightarrow> TxSelectorError \<Rightarrow> bool \<Rightarrow> 's step" where
  "rejectTx ls tx err retry =
     (let tx' = tx\<lparr>Info := Message err, ErrorCode := Code err, ErrorType := ErrType err\<rparr> in
      if AtomicGroupID tx \<noteq> EmptyAtomicGroupID
      then FailedAG \<lparr>groupID = AtomicGroupID tx, failedTxID = TxID tx, reason = err\<rparr> ls
      else Next (if retry then onNonSelectedL2Tx ls tx' else onUnforjableL2Tx ls tx'))"

definition newL1CoordinatorTx ::
  "'s Selector \<Rightarrow> Config \<Rightarrow> 's loopState \<Rightarrow> PoolL2Tx \<Rightarrow> L1Tx \<Rightarrow> byte list \<Rightarrow>
   's step + 's loopState" where
  "newL1CoordinatorTx sel selectionConfig ls tx l1CoordinatorTx accAuth =
     (if \<not> canAddL2TxThatNeedsNewCoordL1Tx (nAddedL1Txs ls) (nAddedL2Txs ls) selectionConfig
      then Inl (rejectTx ls tx (ErrNoAvailableSlots sel) False)
      else
        (case onTxL1ToBeProcessed sel ls l1CoordinatorTx of
           Inl err \<Rightarrow> Inl (Fatal err)
         | Inr ls' \<Rightarrow> Inr (onAccAuth ls' accAuth)))"

definition coordinatorAccountStage ::
  "'s Selector \<Rightarrow> Config \<Rightarrow> 's loopState \<Rightarrow> PoolL2Tx \<Rightarrow> 's step + 's loopState" where
  "coordinatorAccountStage sel selectionConfig ls tx =
     (case coordAccountForTokenID sel (stateDB ls) (PoolL2Tx.TokenID tx) (nAddedL1Txs ls) of
        Inl err \<Rightarrow> Inl (Fatal err)
      | Inr (None, positionL1) \<Rightarrow> Inr ls
      | Inr (Some l1CoordinatorTx, positionL1) \<Rightarrow>
          newL1CoordinatorTx sel selectionConfig ls tx l1CoordinatorTx
            (AccountCreationAuth (coordAccount sel)))"

definition recipientAccountStage ::
  "'s Selector \<Rightarrow> Config \<Rightarrow> L1Tx list \<Rightarrow> 's loopState \<Rightarrow> PoolL2Tx \<Rightarrow> 's step + 's loopState" where
  "recipientAccountStage sel selectionConfig l1UserFutureTxs ls tx =
     (case recipientNeedsAccount sel (stateDB ls) l1UserFutureTxs tx of
        None \<Rightarrow> Inr ls
      | Some (l1CoordinatorTx, accAuth) \<Rightarrow>
          newL1CoordinatorTx sel selectionConfig ls tx
            (l1CoordinatorTx\<lparr>Position := nAddedL1Txs ls\<rparr>) accAuth)"

definition selectTx :: "'s Selector \<Rightarrow> 's loopState \<Rightarrow> PoolL2Tx \<Rightarrow> 's step" where
  "selectTx sel ls tx =
     (case ProcessL2Tx sel (stateDB ls) tx of
        Inl err \<Rightarrow> Fatal err
      | Inr s' \<Rightarrow>
          (case onSelectedL2Tx sel (ls\<lparr>stateDB := s'\<rparr>) tx of
             Inl err \<Rightarrow> Fatal err
           | Inr ls' \<Rightarrow> Next ls'))"

definition verifyOne ::
  "'s Selector \<Rightarrow> Config \<Rightarrow> L1Tx list \<Rightarrow> 's loopState \<Rightarrow> PoolL2Tx \<Rightarrow> 's step" where
  "verifyOne sel selectionConfig l1UserFutureTxs ls tx =
     (if \<not> canAddL2Tx (nAddedL1Txs ls) (nAddedL2Txs ls) selectionConfig
      then rejectTx ls tx (ErrNoAvailableSlots sel) False
      else
        (case verifyTx sel (stateDB ls) l1UserFutureTxs tx of
           NotYetSelectable err \<Rightarrow> rejectTx ls tx err True
         | Unforjable err \<Rightarrow> rejectTx ls tx err False
         | Selectable \<Rightarrow>
             (case coordinatorAccountStage sel selectionConfig ls tx of
                Inl r \<Rightarrow> r
              | Inr ls1 \<Rightarrow>
                  (case recipientAccountStage sel selectionConfig l1UserFutureTxs ls1 tx of
                     Inl r \<Rightarrow> r
                   | Inr ls2 \<Rightarrow> selectTx sel ls2 tx))))"

fun verifyTxs ::
  "'s Selector \<Rightarrow> Config \<Rightarrow> L1Tx list \<Rightarrow> PoolL2Tx list \<Rightarrow> 's loopState \<Rightarrow> 's step" where
  "verifyTxs sel selectionConfig l1UserFutureTxs [] ls = Next ls"
| "verifyTxs sel selectionConfig l1UserFutureTxs (tx # l2Txs) ls =
     (case verifyOne sel selectionConfig l1UserFutureTxs ls tx of
        Next ls' \<Rightarrow> verifyTxs sel selectionConfig l1UserFutureTxs l2Txs ls'
      | FailedAG failedAG ls' \<Rightarrow> FailedAG failedAG ls'
      | Fatal err \<Rightarrow> Fatal err)"

subsection \<open>\<open>getL1L2TxSelection\<close>\<close>

datatype 's outcome = Done Selection 's | Failed string | Restart failedAtomicGroup "'s loopState"

text \<open>The \<open>for { select }\<close> loop, one pass of the verifier per iteration: a pass ends with
  \<open>verificationEnded\<close>, and the transactions it left unselected are verified again as long
  as the pass selected something. \<open>iteSelectedTxs\<close> and \<open>nonSelectedTxs\<close> are empty when a
  pass starts.\<close>

function selectionLoop ::
  "'s Selector \<Rightarrow> Config \<Rightarrow> L1Tx list \<Rightarrow> PoolL2Tx list \<Rightarrow> 's loopState \<Rightarrow> 's outcome" where
  "selectionLoop sel selectionConfig l1UserFutureTxs selectableTxs ls =
     (case verifyTxs sel selectionConfig l1UserFutureTxs selectableTxs
             (ls\<lparr>iteSelectedTxs := [], nonSelectedTxs := []\<rparr>) of
        Fatal err \<Rightarrow> Failed err
      | FailedAG failedAG ls' \<Rightarrow> Restart failedAG ls'
      | Next ls' \<Rightarrow>
          if length (iteSelectedTxs ls') = 0
          then (case finishSelection sel ls' of
                  Inl err \<Rightarrow> Failed err
                | Inr (r, s') \<Rightarrow> Done r s')
          else selectionLoop sel selectionConfig l1UserFutureTxs (nonSelectedTxs ls') ls')"
  by pat_completeness auto
termination
proof (relation "measure (\<lambda>(sel, selectionConfig, l1UserFutureTxs, selectableTxs, ls).
                            length selectableTxs)")
  show "wf (measure (\<lambda>(sel :: 's Selector, selectionConfig :: Config,
                        l1UserFutureTxs :: L1Tx list, selectableTxs :: PoolL2Tx list,
                        ls :: 's loopState). length selectableTxs))"
    by simp
next
  fix sel :: "'s Selector" and selectionConfig :: Config and l1UserFutureTxs :: "L1Tx list"
    and selectableTxs :: "PoolL2Tx list" and ls x2 :: "'s loopState"
  assume run: "verifyTxs sel selectionConfig l1UserFutureTxs selectableTxs
                 (ls\<lparr>iteSelectedTxs := [], nonSelectedTxs := []\<rparr>) = Next x2"
    and some: "length (iteSelectedTxs x2) \<noteq> 0"
  have one: "length (nonSelectedTxs b) + length (iteSelectedTxs b)
               \<le> Suc (length (nonSelectedTxs a) + length (iteSelectedTxs a)) \<and>
             (iteSelectedTxs a \<noteq> [] \<longrightarrow> iteSelectedTxs b \<noteq> [])"
    if "verifyOne sel selectionConfig l1UserFutureTxs a tx = Next b" for a b :: "'s loopState" and tx
    using that
    by (auto simp: verifyOne_def rejectTx_def coordinatorAccountStage_def
          recipientAccountStage_def newL1CoordinatorTx_def selectTx_def onSelectedL2Tx_def
          onTxL1ToBeProcessed_def onAccAuth_def onNonSelectedL2Tx_def onUnforjableL2Tx_def Let_def
        split: if_splits verdict.splits sum.splits option.splits prod.splits idxLookup.splits)
  have pass: "verifyTxs sel selectionConfig l1UserFutureTxs txs a = Next b \<Longrightarrow>
              length (nonSelectedTxs b) + length (iteSelectedTxs b)
                \<le> length txs + length (nonSelectedTxs a) + length (iteSelectedTxs a) \<and>
              (iteSelectedTxs a \<noteq> [] \<longrightarrow> iteSelectedTxs b \<noteq> [])"
    for txs and a b :: "'s loopState"
  proof (induction txs arbitrary: a)
    case Nil
    then show ?case by simp
  next
    case (Cons tx txs)
    from Cons.prems obtain c where c: "verifyOne sel selectionConfig l1UserFutureTxs a tx = Next c"
      and rest: "verifyTxs sel selectionConfig l1UserFutureTxs txs c = Next b"
      by (auto split: step.splits)
    from one [OF c] Cons.IH [OF rest] show ?case by auto
  qed
  from pass [OF run] some
  show "((sel, selectionConfig, l1UserFutureTxs, nonSelectedTxs x2, x2),
         (sel, selectionConfig, l1UserFutureTxs, selectableTxs, ls))
        \<in> measure (\<lambda>(sel, selectionConfig, l1UserFutureTxs, selectableTxs, ls).
                      length selectableTxs)"
    by (cases "iteSelectedTxs x2") simp_all
qed

fun processL1UserTxs :: "'s Selector \<Rightarrow> 's \<Rightarrow> L1Tx list \<Rightarrow> string + 's \<times> L1Tx list" where
  "processL1UserTxs sel s [] = Inr (s, [])"
| "processL1UserTxs sel s (tx # txs) =
     (case ProcessL1Tx sel s tx of
        Inl err \<Rightarrow> Inl err
      | Inr (s', tx') \<Rightarrow>
          (case processL1UserTxs sel s' txs of
             Inl err \<Rightarrow> Inl err
           | Inr (s'', txs') \<Rightarrow> Inr (s'', tx' # txs')))"

text \<open>One run from the label \<open>START_SELECTION\<close>, up to a \<open>return\<close> or to the \<open>goto\<close>. The
  user transactions are processed in place, through \<open>&l1UserTxs[i]\<close>: the slice that the
  run goes on with, returns, and hands to the next run is the processed one.\<close>

definition startSelection ::
  "'s Selector \<Rightarrow> Config \<Rightarrow> (AtomicGroupID \<Rightarrow> failedAtomicGroup option) \<Rightarrow> nat \<Rightarrow> 's \<Rightarrow>
   L1Tx list \<Rightarrow> L1Tx list \<Rightarrow> 's outcome" where
  "startSelection sel selectionConfig failedAtomicGroups attempt s l1UserTxs' l1UserFutureTxs =
     (case processL1UserTxs sel s l1UserTxs' of
        Inl err \<Rightarrow> Failed err
      | Inr (s1, l1UserTxs1) \<Rightarrow>
          (case GetPendingTxs sel attempt of
             Inl err \<Rightarrow> Failed err
           | Inr l2TxsFromDB \<Rightarrow>
               (case filterFailedAtomicGroups sel l2TxsFromDB failedAtomicGroups of
                  (selectableTxsTmp, discardedTxs0) \<Rightarrow>
                    (case filterInvalidAtomicGroups sel selectableTxsTmp of
                       (selectableTxs, discardedTxsTmp) \<Rightarrow>
                         (let discardedTxs1 = discardedTxs0 @ discardedTxsTmp in
                          if length selectableTxs = 0 then
                            (case MakeCheckpoint sel s1 of
                               Inl err \<Rightarrow> Failed err
                             | Inr s2 \<Rightarrow>
                                 Done \<lparr>Selection.coordIdxs = [], accCreationAuths = [],
                                       Selection.l1UserTxs = l1UserTxs1,
                                       Selection.l1CoordinatorTxs = [],
                                       selL2Txs = [], discardedL2Txs = discardedTxs1\<rparr> s2)
                          else
                            (let atomicFeeMap = calculateAtomicGroupsAverageFee (addFloat64 sel) (divFloat64 sel)
                                                 selectableTxs;
                                 selectableTxs' = sortL2Txs (sortSliceBy sel)
                                                    (rangeOverSortedGroups sel)
                                                    selectableTxs atomicFeeMap
                             in selectionLoop sel selectionConfig l1UserFutureTxs selectableTxs'
                                  \<lparr>stateDB = s1, l1UserTxs = l1UserTxs1, accAuths = [],
                                   l1CoordinatorTxs = [], selectedTxs = [],
                                   nonSelectedTxs = [], iteSelectedTxs = [], coordIdxs = [],
                                   coordIdxsMap = Map.empty,
                                   discardedTxs = discardedTxs1\<rparr>))))))"

text \<open>The runs of one call: a failed atomic group is recorded, the state is reset, and the
  selection starts again. A call that has not returned after \<open>fuel\<close> runs gives \<open>None\<close>.\<close>

fun selectionRuns ::
  "nat \<Rightarrow> 's Selector \<Rightarrow> Config \<Rightarrow> (AtomicGroupID \<Rightarrow> failedAtomicGroup option) \<Rightarrow> nat \<Rightarrow> 's \<Rightarrow>
   L1Tx list \<Rightarrow> L1Tx list \<Rightarrow> (string + Selection \<times> 's) option" where
  "selectionRuns 0 sel selectionConfig failedAtomicGroups attempt s l1UserTxs' l1UserFutureTxs =
     None"
| "selectionRuns (Suc fuel) sel selectionConfig failedAtomicGroups attempt s l1UserTxs'
     l1UserFutureTxs =
     (case startSelection sel selectionConfig failedAtomicGroups attempt s l1UserTxs'
             l1UserFutureTxs of
        Done r s' \<Rightarrow> Some (Inr (r, s'))
      | Failed err \<Rightarrow> Some (Inl err)
      | Restart failedAG ls \<Rightarrow>
          (case Reset sel (stateDB ls) of
             Inl err \<Rightarrow> Some (Inl err)
           | Inr s' \<Rightarrow>
               selectionRuns fuel sel selectionConfig
                 (failedAtomicGroups(groupID failedAG \<mapsto> failedAG)) (Suc attempt) s'
                 (loopState.l1UserTxs ls) l1UserFutureTxs))"

definition getL1L2TxSelection ::
  "nat \<Rightarrow> 's Selector \<Rightarrow> Config \<Rightarrow> 's \<Rightarrow> L1Tx list \<Rightarrow> L1Tx list \<Rightarrow>
   (string + Selection \<times> 's) option" where
  "getL1L2TxSelection fuel sel selectionConfig s l1UserTxs' l1UserFutureTxs =
     selectionRuns fuel sel selectionConfig Map.empty 0 s l1UserTxs' l1UserFutureTxs"

definition GetL1L2TxSelection ::
  "nat \<Rightarrow> 's Selector \<Rightarrow> Config \<Rightarrow> 's \<Rightarrow> L1Tx list \<Rightarrow> L1Tx list \<Rightarrow>
   (string + Selection \<times> 's) option" where
  "GetL1L2TxSelection fuel sel selectionConfig s l1UserTxs' l1UserFutureTxs =
     getL1L2TxSelection fuel sel selectionConfig s l1UserTxs' l1UserFutureTxs"

subsection \<open>A selector to run the selection on\<close>

text \<open>The state is the list of the tokens for which the coordinator has an account; the
  user accounts are those of the test above. A coordinator transaction that creates an
  account adds its token; every pool transaction is forgeable and no recipient needs an
  account.\<close>

definition selEx :: "PoolL2Tx list \<Rightarrow> (TokenID list) Selector" where
  "selEx pool =
     \<lparr>coordAccount = \<lparr>Addr = 77, CoordBJJ = 78, AccountCreationAuth = [1, 2, 3]\<rparr>,
      selConsts = consts0,
      accountsOf = (\<lambda>s. testAccounts),
      applyL1Tx = (\<lambda>s tx. Inr (if L1Tx.Type tx = TxTypeCreateAccountDeposit \<and> \<not> UserOrigin tx
                                  then L1Tx.TokenID tx # s else s)),
      ProcessL2Tx = (\<lambda>s tx. Inr s),
      UpdateAccount = (\<lambda>s idx account. Inr s),
      MakeCheckpoint = (\<lambda>s. Inr s),
      Reset = (\<lambda>s. Inr []),
      GetPendingTxs = (\<lambda>attempt. Inr pool),
      GetIdxByEthAddrBJJ = (\<lambda>s addr bjj tokenID.
                              if tokenID \<in> set s then IdxFound 300 else ErrIdxNotFound),
      AccumulatedFees = (\<lambda>s. []),
      ErrInvalidAtomicGroup = ''invalid atomic group'',
      ErrInvalidAtomicGroupCode = 18,
      ErrInvalidAtomicGroupType = ''ErrInvalidAtomicGroup'',
      ErrNoAvailableSlots = \<lparr>Message = ''no available slots'', Code = 1,
                             ErrType = ''ErrNoAvailableSlots''\<rparr>,
      sprintfUnselectable = (\<lambda>g t m. ''unselectable atomic group: '' @ m),
      rangeOverGroups = (\<lambda>groups. groups),
      rangeOverSortedGroups = rev,
      sortSliceBy = insertionSort,
      addFloat64 = (+),
      divFloat64 = (/),
      verifyTx = (\<lambda>s l1UserFutureTxs tx. Selectable),
      recipientNeedsAccount = (\<lambda>s l1UserFutureTxs tx. None)\<rparr>"

definition cfgEx :: "32 word \<Rightarrow> 32 word \<Rightarrow> Config" where
  "cfgEx maxTx maxL1Tx =
     \<lparr>NLevels = 32, MaxFeeTx = 64, MaxTx = maxTx, MaxL1Tx = maxL1Tx, ChainID = 0\<rparr>"

text \<open>Two deposits as they come from the queue, their effective amounts not yet set.\<close>

definition l1Deposit :: L1Tx where
  "l1Deposit = testL1Tx 256 0 0 5 10 0 TxTypeDeposit"

definition l1DepositB :: L1Tx where
  "l1DepositB = (testL1Tx 257 0 0 7 11 0 TxTypeDeposit)\<lparr>Position := 1\<rparr>"

definition l1CoordEx :: L1Tx where
  "l1CoordEx =
     \<lparr>Position = 1, UserOrigin = False, FromIdx = 0, ToIdx = 0, FromEthAddr = 77, FromBJJ = 78,
      TokenID = 0, Amount = 0, DepositAmount = 0, EffectiveAmount = Some 0,
      EffectiveDepositAmount = Some 0, Type = TxTypeCreateAccountDeposit\<rparr>"

definition sameButEffectiveAmounts :: "L1Tx \<Rightarrow> L1Tx \<Rightarrow> bool" where
  "sameButEffectiveAmounts tx' tx \<longleftrightarrow>
     tx' = tx\<lparr>EffectiveAmount := EffectiveAmount tx',
              EffectiveDepositAmount := EffectiveDepositAmount tx'\<rparr>"

definition capacityOk :: "Config \<Rightarrow> 's loopState \<Rightarrow> bool" where
  "capacityOk selectionConfig ls \<longleftrightarrow>
     nAddedL1Txs ls \<le> uint (MaxL1Tx selectionConfig) \<and>
     nAddedL1Txs ls + nAddedL2Txs ls \<le> uint (MaxTx selectionConfig)"

text \<open>The two deposits once processed, the selection that holds user transactions only,
  and the selection of the run on the pool \<open>[txN1]\<close>.\<close>

definition l1DepositDone :: L1Tx where
  "l1DepositDone = l1Deposit\<lparr>EffectiveAmount := Some 0, EffectiveDepositAmount := Some 5\<rparr>"

definition l1DepositBDone :: L1Tx where
  "l1DepositBDone = l1DepositB\<lparr>EffectiveAmount := Some 0, EffectiveDepositAmount := Some 7\<rparr>"

definition onlyL1UserTxs :: "L1Tx list \<Rightarrow> Selection" where
  "onlyL1UserTxs txs =
     \<lparr>Selection.coordIdxs = [], accCreationAuths = [], Selection.l1UserTxs = txs,
      Selection.l1CoordinatorTxs = [], selL2Txs = [], discardedL2Txs = []\<rparr>"

definition selectionEx :: Selection where
  "selectionEx =
     \<lparr>Selection.coordIdxs = [300], accCreationAuths = [[1, 2, 3]],
      Selection.l1UserTxs = [l1DepositDone], Selection.l1CoordinatorTxs = [l1CoordEx],
      selL2Txs = [txN1], discardedL2Txs = []\<rparr>"

section \<open>Properties\<close>

lemma isAtomicGroupValid_member:
  assumes "isAtomicGroupValid g" and "i < length (Txs g)"
  shows "atomicTxRequestOk (Txs g) i"
  using assms by (simp add: isAtomicGroupValid_def list_all_iff)

lemma atomicTxRequestOk_offset:
  assumes "atomicTxRequestOk txs i"
  shows "RqOffset (txs ! i) \<noteq> 0"
  using assms
  by (auto simp: atomicTxRequestOk_def requestOffset2RelativePosition_def)

text \<open>
  C5. \<open>requestOffset2RelativePosition\<close> maps the offsets 1, 2, 3 to the relative positions
  +1, +2, +3 and the offsets 4, 5, 6, 7 to -4, -3, -2, -1; it returns an error for offset 0
  and for every offset above 7. Consequently an atomic group that holds a transaction with
  \<open>RqOffset\<close> 0 is never valid for \<open>isAtomicGroupValid\<close>.
\<close>

theorem requestOffset2RelativePosition_table:
  "requestOffset2RelativePosition 1 = Inr 1 \<and>
   requestOffset2RelativePosition 2 = Inr 2 \<and>
   requestOffset2RelativePosition 3 = Inr 3 \<and>
   requestOffset2RelativePosition 4 = Inr (- 4) \<and>
   requestOffset2RelativePosition 5 = Inr (- 3) \<and>
   requestOffset2RelativePosition 6 = Inr (- 2) \<and>
   requestOffset2RelativePosition 7 = Inr (- 1) \<and>
   requestOffset2RelativePosition 0 = Inl ErrTxsNotAtomic \<and>
   (\<forall>r. 7 < r \<longrightarrow> requestOffset2RelativePosition r = Inl ErrInvalidRqOffset) \<and>
   (\<forall>g tx. tx \<in> set (Txs g) \<and> RqOffset tx = 0 \<longrightarrow> \<not> isAtomicGroupValid g)"
proof -
  have table: "requestOffset2RelativePosition 1 = Inr 1"
    "requestOffset2RelativePosition 2 = Inr 2"
    "requestOffset2RelativePosition 3 = Inr 3"
    "requestOffset2RelativePosition 4 = Inr (- 4)"
    "requestOffset2RelativePosition 5 = Inr (- 3)"
    "requestOffset2RelativePosition 6 = Inr (- 2)"
    "requestOffset2RelativePosition 7 = Inr (- 1)"
    "requestOffset2RelativePosition 0 = Inl ErrTxsNotAtomic"
    by (simp_all add: requestOffset2RelativePosition_def)
  have above: "requestOffset2RelativePosition r = Inl ErrInvalidRqOffset" if "7 < r" for r
  proof -
    from that have "r \<noteq> 0" "r \<noteq> 1" "r \<noteq> 2" "r \<noteq> 3" "r \<noteq> 4" "r \<noteq> 5" "r \<noteq> 6" "r \<noteq> 7"
      by auto
    then show ?thesis
      by (simp add: requestOffset2RelativePosition_def)
  qed
  have group: "\<not> isAtomicGroupValid g" if "tx \<in> set (Txs g)" "RqOffset tx = 0" for g tx
  proof
    assume valid: "isAtomicGroupValid g"
    from that(1) obtain i where i: "i < length (Txs g)" "Txs g ! i = tx"
      by (auto simp: in_set_conv_nth)
    from isAtomicGroupValid_member [OF valid i(1)] have "RqOffset (Txs g ! i) \<noteq> 0"
      by (rule atomicTxRequestOk_offset)
    with i(2) that(2) show False by simp
  qed
  from table above group show ?thesis by blast
qed

theorem requestOffset2RelativePosition_table_witness:
  "requestOffset2RelativePosition 9 = Inl ErrInvalidRqOffset \<and>
   \<not> isAtomicGroupValid \<lparr>Txs = [emptyPoolL2Tx\<lparr>RqOffset := 1\<rparr>, emptyPoolL2Tx]\<rparr>"
proof -
  have "(7 :: 8 word) < 9" by simp
  moreover have "emptyPoolL2Tx \<in> set (Txs \<lparr>Txs = [emptyPoolL2Tx\<lparr>RqOffset := 1\<rparr>, emptyPoolL2Tx]\<rparr>)
    \<and> RqOffset emptyPoolL2Tx = 0"
    by (simp add: emptyPoolL2Tx_def)
  ultimately show ?thesis
    using requestOffset2RelativePosition_table by blast
qed

lemma EmptyTxID_eq: "EmptyTxID = [0, 0, 0, 0, 0, 0, 0, 0, 0, 0, 0, 0]"
  by (simp add: EmptyTxID_def TxIDLen_def numeral_eq_Suc)

lemma bigEndian_numeral:
  "bigEndian (numeral k) x = bigEndian (pred_numeral k) (x div 256) @ [of_nat (x mod 256)]"
  by (simp only: numeral_eq_Suc [of k] bigEndian.simps)

lemma SetID_TxID:
  assumes "length (TxID tx) = TxIDLen" and "SetID c tx = Inr tx'"
  shows "TxID tx' = TxIDPrefixL2Tx c # bigEndian 6 (unat (FromIdx tx)) @ bigEndian 5 (unat (Nonce tx))"
    and "tx' = tx\<lparr>TxID := TxID tx'\<rparr>"
  using assms
  by (auto simp: SetID_def Idx_Bytes_def Nonce_Bytes_def go_copy_def TxIDLen_def Let_def
      take_Suc_conv_app_nth list_eq_iff_nth_eq nth_append
      split: if_splits)

lemma SetID_Inr_iff:
  "(\<exists>tx'. SetID c tx = Inr tx') \<longleftrightarrow> unat (FromIdx tx) < 2 ^ 48 \<and> unat (Nonce tx) < 2 ^ 40"
  by (auto simp: SetID_def Idx_Bytes_def Nonce_Bytes_def Let_def)

lemma SetID_idem:
  assumes len: "length (TxID tx) = TxIDLen" and ok: "SetID c tx = Inr tx'"
  shows "SetID c tx' = Inr tx'"
proof -
  note r = SetID_TxID [OF len ok]
  have eq: "FromIdx tx' = FromIdx tx" "Nonce tx' = Nonce tx"
    by (subst r(2), simp)+
  have len': "length (TxID tx') = TxIDLen"
    by (simp add: r(1) TxIDLen_def)
  from ok have "\<exists>t. SetID c tx = Inr t" by blast
  then have "\<exists>t. SetID c tx' = Inr t"
    unfolding SetID_Inr_iff eq .
  then obtain t where t: "SetID c tx' = Inr t" by blast
  note r' = SetID_TxID [OF len' t]
  have "TxID t = TxID tx'" by (simp add: r'(1) r(1) eq)
  with r'(2) have "t = tx'" by simp
  with t show ?thesis by simp
qed

lemma SetType_Inr:
  "SetType c tx = Inr tx1 \<Longrightarrow> tx1 = tx\<lparr>Type := Type tx1\<rparr>"
  by (auto simp: SetType_def split: if_splits)

lemma SetID_Type_update:
  "SetID c (tx\<lparr>Type := t\<rparr>) = (case SetID c tx of Inl e \<Rightarrow> Inl e | Inr r \<Rightarrow> Inr (r\<lparr>Type := t\<rparr>))"
  by (simp add: SetID_def Let_def split: sum.splits)

text \<open>
  C7 (amended). For a pool transaction whose \<open>TxID\<close> array has its 12 bytes, the
  identifier computed by \<open>SetID\<close> is the L2 prefix byte followed by the 6 bytes of
  \<open>FromIdx\<close> and the 5 bytes of \<open>Nonce\<close>, and computing it again yields the same
  transaction. \<open>NewPoolL2Tx\<close> first infers the type: when that inference succeeds and
  agrees with a type the transaction already carries, a transaction with a non-empty
  \<open>TxID\<close> is accepted if and only if the stored identifier equals the computed one.
\<close>

theorem NewPoolL2Tx_TxID:
  assumes len: "length (TxID tx) = TxIDLen"
  shows "(\<forall>tx'. SetID c tx = Inr tx' \<longrightarrow>
            TxID tx' = TxIDPrefixL2Tx c # bigEndian 6 (unat (FromIdx tx)) @ bigEndian 5 (unat (Nonce tx)) \<and>
            SetID c tx' = Inr tx') \<and>
         (\<forall>tx1 tx'. SetType c tx = Inr tx1 \<and> (Type tx = TxTypeUnset \<or> Type tx = Type tx1) \<and>
            SetID c tx = Inr tx' \<and> TxID tx \<noteq> EmptyTxID \<longrightarrow>
            ((\<exists>r. NewPoolL2Tx c tx = Inr r) \<longleftrightarrow> TxID tx = TxID tx'))"
proof (intro conjI allI impI)
  fix tx' assume "SetID c tx = Inr tx'"
  then show "TxID tx' = TxIDPrefixL2Tx c # bigEndian 6 (unat (FromIdx tx)) @ bigEndian 5 (unat (Nonce tx))"
    and "SetID c tx' = Inr tx'"
    using SetID_TxID(1) [OF len] SetID_idem [OF len] by blast+
next
  fix tx1 tx'
  assume h: "SetType c tx = Inr tx1 \<and> (Type tx = TxTypeUnset \<or> Type tx = Type tx1) \<and>
            SetID c tx = Inr tx' \<and> TxID tx \<noteq> EmptyTxID"
  then have st: "SetType c tx = Inr tx1" and ty: "Type tx = TxTypeUnset \<or> Type tx = Type tx1"
    and sid: "SetID c tx = Inr tx'" and ne: "TxID tx \<noteq> EmptyTxID" by simp_all
  have tx1: "tx1 = tx\<lparr>Type := Type tx1\<rparr>" by (rule SetType_Inr [OF st])
  have sid1: "SetID c tx1 = Inr (tx'\<lparr>Type := Type tx1\<rparr>)"
    by (subst tx1) (simp add: SetID_Type_update sid)
  have id1: "TxID tx1 = TxID tx" by (subst tx1) simp
  show "(\<exists>r. NewPoolL2Tx c tx = Inr r) \<longleftrightarrow> TxID tx = TxID tx'"
    using ty ne by (auto simp: NewPoolL2Tx_def Let_def st sid1 id1)
qed

theorem NewPoolL2Tx_TxID_witness:
  "length (TxID txTransfer) = TxIDLen \<and>
   SetType consts0 txTransfer = Inr (txTransfer\<lparr>Type := TxTypeTransfer\<rparr>) \<and>
   Type txTransfer = TxTypeUnset \<and>
   SetID consts0 txTransfer = Inr txTransfer \<and>
   TxID txTransfer \<noteq> EmptyTxID \<and>
   (\<exists>r. NewPoolL2Tx consts0 txTransfer = Inr r)"
proof -
  have len: "length (TxID txTransfer) = TxIDLen"
    by (simp add: txTransfer_def TxIDLen_def)
  have st: "SetType consts0 txTransfer = Inr (txTransfer\<lparr>Type := TxTypeTransfer\<rparr>)"
    by (simp add: SetType_def consts0_def txTransfer_def)
  have ty: "Type txTransfer = TxTypeUnset"
    by (simp add: txTransfer_def emptyPoolL2Tx_def)
  have sid: "SetID consts0 txTransfer = Inr txTransfer"
    by (simp add: SetID_def Idx_Bytes_def Nonce_Bytes_def go_copy_def consts0_def
        txTransfer_def emptyPoolL2Tx_def Let_def bigEndian_numeral)
  have ne: "TxID txTransfer \<noteq> EmptyTxID"
    by (simp add: txTransfer_def EmptyTxID_eq)
  have "\<forall>tx1 tx'. SetType consts0 txTransfer = Inr tx1 \<and>
            (Type txTransfer = TxTypeUnset \<or> Type txTransfer = Type tx1) \<and>
            SetID consts0 txTransfer = Inr tx' \<and> TxID txTransfer \<noteq> EmptyTxID \<longrightarrow>
            ((\<exists>r. NewPoolL2Tx consts0 txTransfer = Inr r) \<longleftrightarrow> TxID txTransfer = TxID tx')"
    using NewPoolL2Tx_TxID [OF len, of consts0] by (rule conjunct2)
  then have "SetType consts0 txTransfer = Inr (txTransfer\<lparr>Type := TxTypeTransfer\<rparr>) \<and>
            (Type txTransfer = TxTypeUnset \<or> Type txTransfer = Type (txTransfer\<lparr>Type := TxTypeTransfer\<rparr>)) \<and>
            SetID consts0 txTransfer = Inr txTransfer \<and> TxID txTransfer \<noteq> EmptyTxID \<longrightarrow>
            ((\<exists>r. NewPoolL2Tx consts0 txTransfer = Inr r) \<longleftrightarrow> TxID txTransfer = TxID txTransfer)"
    by blast
  with st ty sid ne have "\<exists>r. NewPoolL2Tx consts0 txTransfer = Inr r"
    by simp
  with len st ty sid ne show ?thesis by simp
qed

text \<open>
  The equivalence does not hold without the condition on the type: a transaction whose
  stored \<open>TxID\<close> equals the computed one, but which declares the type Exit while its
  \<open>ToIdx\<close> is a user account, is rejected.
\<close>

theorem NewPoolL2Tx_TxID_counterexample:
  "SetID consts0 txExitDeclared = Inr txExitDeclared \<and>
   TxID txExitDeclared \<noteq> EmptyTxID \<and>
   NewPoolL2Tx consts0 txExitDeclared = Inl (ErrL2TxType TxTypeTransfer TxTypeExit)"
  by (simp add: NewPoolL2Tx_def SetType_def SetID_def Idx_Bytes_def Nonce_Bytes_def go_copy_def consts0_def
        txExitDeclared_def txTransfer_def emptyPoolL2Tx_def Let_def EmptyTxID_eq bigEndian_numeral)

lemma SetID_fields:
  "SetID c tx = Inr t \<Longrightarrow> Amount t = Amount tx \<and> Type t = Type tx \<and> RqOffset t = RqOffset tx \<and> RqTxID t = RqTxID tx"
  by (auto simp: SetID_def Let_def split: sum.splits)

lemma SetID_no_panic: "SetID c tx \<noteq> Inl PanicNilPointer"
  by (auto simp: SetID_def Let_def Idx_Bytes_def Nonce_Bytes_def split: sum.splits)

lemma SetType_no_panic: "SetType c tx \<noteq> Inl PanicNilPointer"
  by (auto simp: SetType_def)

lemma NewPoolL2Tx_no_panic: "NewPoolL2Tx c tx \<noteq> Inl PanicNilPointer"
  using SetID_no_panic SetType_no_panic
  by (auto simp: NewPoolL2Tx_def Let_def split: sum.splits)

lemma NewPoolL2Tx_Amount:
  assumes "NewPoolL2Tx c tx = Inr tx'"
  shows "Amount tx' = Amount tx"
proof -
  from assms obtain tx1 where st: "SetType c tx = Inr tx1" and sid: "SetID c tx1 = Inr tx'"
    by (auto simp: NewPoolL2Tx_def Let_def split: sum.splits if_splits)
  have "Amount tx1 = Amount tx"
    by (subst SetType_Inr [OF st]) simp
  with SetID_fields [OF sid] show ?thesis by simp
qed

lemma NewPoolL2Tx_Type_declared:
  assumes "NewPoolL2Tx c tx = Inr tx'" and "Type tx \<noteq> TxTypeUnset"
  shows "Type tx' = Type tx"
proof -
  from assms obtain tx1 where st: "SetType c tx = Inr tx1" and sid: "SetID c tx1 = Inr tx'"
    and ty: "Type tx = Type tx1"
    by (auto simp: NewPoolL2Tx_def Let_def split: sum.splits if_splits)
  with SetID_fields [OF sid] show ?thesis by simp
qed

lemma checkDestinatary_Exit: "Type tx = TxTypeExit \<Longrightarrow> checkDestinatary a tx = Inr ()"
  by (simp add: checkDestinatary_def)

lemma verifyPoolL2Tx_Exit_zero:
  assumes ty: "Type tx = TxTypeExit \<or> (\<exists>tx'. NewPoolL2Tx (common a) tx = Inr tx' \<and> Type tx' = TxTypeExit)"
    and amt: "Amount tx = Some amount" and le: "amount \<le> 0"
  shows "\<exists>err. verifyPoolL2Tx a tx = Inl err \<and> err \<noteq> PanicNilPointer"
proof (cases "NewPoolL2Tx (common a) tx")
  case (Inl err)
  with NewPoolL2Tx_no_panic [of "common a" tx] show ?thesis
    by (auto simp: verifyPoolL2Tx_def)
next
  case (Inr tx')
  from ty Inr NewPoolL2Tx_Type_declared [OF Inr] have ty': "Type tx' = TxTypeExit"
    by auto
  from NewPoolL2Tx_Amount [OF Inr] amt have amt': "Amount tx' = Some amount" by simp
  show ?thesis
    using le
    by (auto simp: verifyPoolL2Tx_def Inr ty' amt' checkDestinatary_Exit split: sum.splits)
qed

lemma verifyPoolL2Tx_ErrExitAmount0:
  assumes "verifyPoolL2Tx a tx = Inl ErrExitAmount0"
  shows "\<exists>tx' amount. NewPoolL2Tx (common a) tx = Inr tx' \<and> Type tx' = TxTypeExit \<and>
           Amount tx = Some amount \<and> amount \<le> 0"
proof (cases "NewPoolL2Tx (common a) tx")
  case (Inl err)
  with assms have "NewPoolL2Tx (common a) tx = Inl ErrExitAmount0"
    by (simp add: verifyPoolL2Tx_def)
  then show ?thesis
    by (auto simp: NewPoolL2Tx_def SetType_def SetID_def Idx_Bytes_def Nonce_Bytes_def Let_def
        split: sum.splits if_splits)
next
  case (Inr tx')
  from assms have "Type tx' = TxTypeExit \<and> (\<exists>amount. Amount tx' = Some amount \<and> amount \<le> 0)"
    by (auto simp: verifyPoolL2Tx_def Inr checkDestinatary_def split: sum.splits if_splits option.splits)
  with NewPoolL2Tx_Amount [OF Inr] Inr show ?thesis by auto
qed

text \<open>
  C8. Admission of a single transaction fails whenever the transaction is of type Exit
  (declared, or inferred by \<open>NewPoolL2Tx\<close> from \<open>ToIdx\<close>) and its amount is zero:
  \<open>verifyPoolL2Tx\<close> returns an error and \<open>postPoolTx\<close> answers BadRequest without
  touching the pool. With a positive amount the zero-amount check never fires:
  \<open>verifyPoolL2Tx\<close> does not return \<open>ErrExitAmount0\<close>.
\<close>

theorem verifyPoolL2Tx_Exit_amount:
  "((Type tx = TxTypeExit \<or> (\<exists>tx'. NewPoolL2Tx (common a) tx = Inr tx' \<and> Type tx' = TxTypeExit)) \<and>
      Amount tx = Some 0 \<longrightarrow>
      (\<exists>err. verifyPoolL2Tx a tx = Inl err) \<and>
      (\<exists>err. postPoolTx a clientIP db (Inr tx) = (BadRequest err, db))) \<and>
   (\<forall>amount. Amount tx = Some amount \<and> 0 < amount \<longrightarrow>
      verifyPoolL2Tx a tx \<noteq> Inl ErrExitAmount0)"
proof (intro conjI impI allI)
  assume h: "(Type tx = TxTypeExit \<or> (\<exists>tx'. NewPoolL2Tx (common a) tx = Inr tx' \<and> Type tx' = TxTypeExit)) \<and>
      Amount tx = Some 0"
  then obtain err where err: "verifyPoolL2Tx a tx = Inl err" "err \<noteq> PanicNilPointer"
    using verifyPoolL2Tx_Exit_zero [of tx a 0] by auto
  show "\<exists>err. verifyPoolL2Tx a tx = Inl err" using err by blast
  show "\<exists>err. postPoolTx a clientIP db (Inr tx) = (BadRequest err, db)"
    using err by (simp add: postPoolTx_def retBadReq_def)
next
  fix amount assume "Amount tx = Some amount \<and> 0 < amount"
  then show "verifyPoolL2Tx a tx \<noteq> Inl ErrExitAmount0"
    using verifyPoolL2Tx_ErrExitAmount0 [of a tx] by auto
qed

lemma NewPoolL2Tx_txExit:
  "NewPoolL2Tx consts0 (txExit\<lparr>Amount := amt\<rparr>) = Inr (txExit\<lparr>Amount := amt, Type := TxTypeExit\<rparr>)"
  by (simp add: NewPoolL2Tx_def SetType_def SetID_def Idx_Bytes_def Nonce_Bytes_def go_copy_def
      consts0_def txExit_def emptyPoolL2Tx_def Let_def EmptyTxID_eq bigEndian_numeral
      word_le_nat_alt)

lemma verifyPoolL2Tx_txExit:
  "verifyPoolL2Tx api0 (txExit\<lparr>Amount := Some amount\<rparr>) = (if amount \<le> 0 then Inl ErrExitAmount0 else Inr ())"
  by (simp add: verifyPoolL2Tx_def api0_def NewPoolL2Tx_txExit checkDestinatary_def)
     (simp add: txExit_def emptyPoolL2Tx_def account256_def)

theorem verifyPoolL2Tx_Exit_amount_witness:
  "NewPoolL2Tx (common api0) txExit = Inr (txExit\<lparr>Type := TxTypeExit\<rparr>) \<and>
   Amount txExit = Some 0 \<and>
   verifyPoolL2Tx api0 txExit = Inl ErrExitAmount0 \<and>
   postPoolTx api0 ''10.0.0.1'' [] (Inr txExit) = (BadRequest ErrExitAmount0, []) \<and>
   Amount (txExit\<lparr>Amount := Some 5\<rparr>) = Some 5 \<and>
   verifyPoolL2Tx api0 (txExit\<lparr>Amount := Some 5\<rparr>) = Inr ()"
proof -
  have n: "NewPoolL2Tx (common api0) txExit = Inr (txExit\<lparr>Type := TxTypeExit\<rparr>)"
    using NewPoolL2Tx_txExit [of "Some 0"] by (simp add: api0_def txExit_def)
  have a: "Amount txExit = Some 0" by (simp add: txExit_def)
  have v: "verifyPoolL2Tx api0 txExit = Inl ErrExitAmount0"
    using verifyPoolL2Tx_txExit [of 0] by (simp add: txExit_def)
  have p: "postPoolTx api0 ''10.0.0.1'' [] (Inr txExit) = (BadRequest ErrExitAmount0, [])"
    by (simp add: postPoolTx_def v retBadReq_def) (simp add: txExit_def emptyPoolL2Tx_def EmptyTxID_eq)
  have v5: "verifyPoolL2Tx api0 (txExit\<lparr>Amount := Some 5\<rparr>) = Inr ()"
    using verifyPoolL2Tx_txExit [of 5] by simp
  have "verifyPoolL2Tx api0 (txExit\<lparr>Amount := Some 5\<rparr>) \<noteq> Inl ErrExitAmount0"
    using verifyPoolL2Tx_Exit_amount [of "txExit\<lparr>Amount := Some 5\<rparr>" api0] by simp
  with n a v p v5 show ?thesis by simp
qed

text \<open>
  C9. \<open>postPoolTx\<close> answers BadRequest with \<open>ErrNotAtomicTxsInPostPoolTx\<close> for every
  parsed transaction whose \<open>RqOffset\<close> is non-zero or whose \<open>RqTxID\<close> is non-empty,
  whatever the collaborators and the pool are (no other validation runs, the pool is
  unchanged); \<open>postAtomicPool\<close> answers BadRequest for every submission of fewer than
  two transactions.
\<close>

theorem postPoolTx_rejects_atomic:
  "(RqOffset tx \<noteq> 0 \<or> RqTxID tx \<noteq> EmptyTxID \<longrightarrow>
      postPoolTx a clientIP db (Inr tx) = (BadRequest ErrNotAtomicTxsInPostPoolTx, db)) \<and>
   (length txs \<le> 1 \<longrightarrow>
      postAtomicPool a clientIP db (Inr txs) = (BadRequest ErrSingleTxInAtomicEndpoint, db))"
  by (simp add: postPoolTx_def postAtomicPool_def)

theorem postPoolTx_rejects_atomic_witness:
  "RqOffset (txTransfer\<lparr>RqOffset := 1\<rparr>) \<noteq> 0 \<and>
   postPoolTx api0 ''10.0.0.1'' [] (Inr (txTransfer\<lparr>RqOffset := 1\<rparr>)) =
     (BadRequest ErrNotAtomicTxsInPostPoolTx, []) \<and>
   length [txTransfer\<lparr>RqOffset := 1\<rparr>] \<le> 1 \<and>
   postAtomicPool api0 ''10.0.0.1'' [] (Inr [txTransfer\<lparr>RqOffset := 1\<rparr>]) =
     (BadRequest ErrSingleTxInAtomicEndpoint, [])"
  using postPoolTx_rejects_atomic [of "txTransfer\<lparr>RqOffset := 1\<rparr>" api0 "''10.0.0.1''" "[]" "[txTransfer\<lparr>RqOffset := 1\<rparr>]"]
  by simp

lemma SetBytes_snoc: "SetBytes (bs @ [b]) = SetBytes bs * 256 + unat b"
  by (simp add: SetBytes_def)

lemma SetBytes_Nil: "SetBytes [] = 0"
  by (simp add: SetBytes_def)

lemma SetBytes_append: "SetBytes (xs @ ys) = SetBytes xs * 256 ^ length ys + SetBytes ys"
proof (induction ys rule: rev_induct)
  case Nil
  then show ?case by (simp add: SetBytes_Nil)
next
  case (snoc y ys)
  have "SetBytes (xs @ ys @ [y]) = SetBytes ((xs @ ys) @ [y])" by simp
  also have "\<dots> = SetBytes (xs @ ys) * 256 + unat y" by (rule SetBytes_snoc)
  finally show ?case
    by (simp add: snoc.IH SetBytes_snoc algebra_simps)
qed

lemma SetBytes_bigEndian: "SetBytes (bigEndian n x) = x mod 256 ^ n"
proof (induction n arbitrary: x)
  case 0
  then show ?case by (simp add: SetBytes_Nil)
next
  case (Suc n)
  have b: "unat (of_nat (x mod 256) :: byte) = x mod 256"
    by (simp add: unat_of_nat)
  have "SetBytes (bigEndian (Suc n) x) = (x div 256 mod 256 ^ n) * 256 + x mod 256"
    by (simp add: SetBytes_snoc Suc.IH b)
  also have "\<dots> = x mod 256 ^ Suc n"
    by (simp add: mod_mult2_eq)
  finally show ?case .
qed

lemma bigEndian_SetBytes: "bigEndian (length bs) (SetBytes bs) = bs"
proof (induction bs rule: rev_induct)
  case Nil
  then show ?case by simp
next
  case (snoc b bs)
  have lt: "unat b < 256" using unsigned_less [of b, where ?'a = nat] by simp
  then have d: "(SetBytes bs * 256 + unat b) div 256 = SetBytes bs"
    and m: "(SetBytes bs * 256 + unat b) mod 256 = unat b"
    by simp_all
  have e: "(of_nat ((SetBytes bs * 256 + unat b) mod 256) :: byte) = b"
    by (simp only: m) simp
  have "bigEndian (length (bs @ [b])) (SetBytes (bs @ [b])) =
        bigEndian (length bs) ((SetBytes bs * 256 + unat b) div 256) @
          [of_nat ((SetBytes bs * 256 + unat b) mod 256)]"
    by (simp add: SetBytes_snoc)
  also have "\<dots> = bs @ [b]"
    by (simp only: d e snoc.IH)
  finally show ?case .
qed

lemma SetBytes_Cons: "SetBytes (b # bs) = unat b * 256 ^ length bs + SetBytes bs"
  using SetBytes_append [of "[b]" bs] by (simp add: SetBytes_def)

lemma go_copy_prefix:
  assumes "length P = lo" and "length src = hi - lo" and "k = length src + m"
  shows "go_copy (P @ replicate k z) lo hi src = (P @ src) @ replicate m z"
  using assms by (simp add: go_copy_def)

lemma replicate31_update:
  "(replicate 31 z)[0 := a, 1 := b] = [a, b] @ replicate 29 z"
proof -
  have "(31::nat) = Suc (Suc 29)" by simp
  then have "replicate 31 z = z # z # replicate 29 z"
    by (simp only: replicate_Suc)
  then show ?thesis by simp
qed

lemma TxCompressedData_layout:
  assumes f16: "newFloat (Amount tx) = Inr amountF"
    and nonce: "unat (Nonce tx) < 2 ^ 40"
    and toIdx: "unat (ToIdx tx) < 2 ^ 48"
    and fromIdx: "unat (FromIdx tx) < 2 ^ 48"
    and sig: "length (SignatureConstantBytes c) = 4"
  shows "TxCompressedData c newFloat UnpackSignY tx chainID =
           Inr (SetBytes (txCompressedDataLayout c (fst (UnpackSignY (ToBJJ tx))) amountF tx chainID))"
proof -
  define s :: byte where "s = (if fst (UnpackSignY (ToBJJ tx)) then 1 else 0)"
  define N where "N = bigEndian 5 (unat (Nonce tx))"
  define T where "T = bigEndian 4 (unat (TokenID tx))"
  define F where "F = bigEndian 2 (unat amountF)"
  define TI where "TI = bigEndian 6 (unat (ToIdx tx))"
  define FI where "FI = bigEndian 6 (unat (FromIdx tx))"
  define C where "C = bigEndian 2 (unat chainID)"
  define S where "S = SignatureConstantBytes c"
  have len: "length N = 5" "length T = 4" "length F = 2" "length TI = 6" "length FI = 6"
    "length C = 2" "length S = 4"
    by (simp_all add: N_def T_def F_def TI_def FI_def C_def S_def sig del: bigEndian.simps)
  have b2: "(replicate 31 0)[0 := s, 1 := Fee tx] = [s, Fee tx] @ replicate 29 0"
    by (rule replicate31_update)
  have b3: "go_copy ([s, Fee tx] @ replicate 29 0) 2 7 N = ([s, Fee tx] @ N) @ replicate 24 0"
    by (rule go_copy_prefix) (simp_all add: len)
  have b4: "go_copy (([s, Fee tx] @ N) @ replicate 24 0) 7 11 T
      = (([s, Fee tx] @ N) @ T) @ replicate 20 0"
    by (rule go_copy_prefix) (simp_all add: len)
  have b5: "go_copy ((([s, Fee tx] @ N) @ T) @ replicate 20 0) 11 13 F
      = ((([s, Fee tx] @ N) @ T) @ F) @ replicate 18 0"
    by (rule go_copy_prefix) (simp_all add: len)
  have b6: "go_copy (((([s, Fee tx] @ N) @ T) @ F) @ replicate 18 0) 13 19 TI
      = (((([s, Fee tx] @ N) @ T) @ F) @ TI) @ replicate 12 0"
    by (rule go_copy_prefix) (simp_all add: len)
  have b7: "go_copy ((((([s, Fee tx] @ N) @ T) @ F) @ TI) @ replicate 12 0) 19 25 FI
      = ((((([s, Fee tx] @ N) @ T) @ F) @ TI) @ FI) @ replicate 6 0"
    by (rule go_copy_prefix) (simp_all add: len)
  have b8: "go_copy (((((([s, Fee tx] @ N) @ T) @ F) @ TI) @ FI) @ replicate 6 0) 25 27 C
      = (((((([s, Fee tx] @ N) @ T) @ F) @ TI) @ FI) @ C) @ replicate 4 0"
    by (rule go_copy_prefix) (simp_all add: len)
  have b9: "go_copy ((((((([s, Fee tx] @ N) @ T) @ F) @ TI) @ FI) @ C) @ replicate 4 0) 27 31 S
      = ((((((([s, Fee tx] @ N) @ T) @ F) @ TI) @ FI) @ C) @ S) @ replicate 0 0"
    by (rule go_copy_prefix) (simp_all add: len)
  have layout: "txCompressedDataLayout c (fst (UnpackSignY (ToBJJ tx))) amountF tx chainID
      = ((((((([s, Fee tx] @ N) @ T) @ F) @ TI) @ FI) @ C) @ S) @ replicate 0 0"
    by (simp add: txCompressedDataLayout_def s_def N_def T_def F_def TI_def FI_def C_def S_def
        del: bigEndian.simps)
  have nb: "Nonce_Bytes (Nonce tx) = Inr N"
    using nonce by (simp add: Nonce_Bytes_def N_def del: bigEndian.simps)
  have tib: "Idx_Bytes (ToIdx tx) = Inr TI"
    using toIdx by (simp add: Idx_Bytes_def TI_def del: bigEndian.simps)
  have fib: "Idx_Bytes (FromIdx tx) = Inr FI"
    using fromIdx by (simp add: Idx_Bytes_def FI_def del: bigEndian.simps)
  have "TxCompressedData c newFloat UnpackSignY tx chainID =
      Inr (SetBytes (((((((([s, Fee tx] @ N) @ T) @ F) @ TI) @ FI) @ C) @ S) @ replicate 0 0))"
    unfolding TxCompressedData_def f16 Let_def sum.case s_def [symmetric] nb tib fib
      TokenID_Bytes_def Float16_Bytes_def T_def [symmetric] F_def [symmetric] C_def [symmetric]
      S_def [symmetric] b2 b3 b4 b5 b6 b7 b8 b9 ..
  then show ?thesis by (simp only: layout)
qed

lemma length_txCompressedDataLayout:
  "length (SignatureConstantBytes c) = 4 \<Longrightarrow>
   length (txCompressedDataLayout c s f tx chainID) = 31"
  by (simp add: txCompressedDataLayout_def del: bigEndian.simps)

lemma SetBytes_txCompressedDataLayout:
  assumes nonce: "unat (Nonce tx) < 2 ^ 40"
    and toIdx: "unat (ToIdx tx) < 2 ^ 48"
    and fromIdx: "unat (FromIdx tx) < 2 ^ 48"
    and sig: "length (SignatureConstantBytes c) = 4"
  shows "SetBytes (txCompressedDataLayout c s f tx chainID) =
     (if s then 1 else 0) * 2 ^ 240 + unat (Fee tx) * 2 ^ 232 + unat (Nonce tx) * 2 ^ 192 +
     unat (TokenID tx) * 2 ^ 160 + unat f * 2 ^ 144 + unat (ToIdx tx) * 2 ^ 96 +
     unat (FromIdx tx) * 2 ^ 48 + unat chainID * 2 ^ 32 + SetBytes (SignatureConstantBytes c)"
proof -
  have tok: "unat (TokenID tx) < 2 ^ 32" using unsigned_less [of "TokenID tx", where ?'a = nat] by simp
  have ff: "unat f < 2 ^ 16" using unsigned_less [of f, where ?'a = nat] by simp
  have ch: "unat chainID < 2 ^ 16" using unsigned_less [of chainID, where ?'a = nat] by simp
  have one: "SetBytes [b] = unat b" for b by (simp add: SetBytes_def)
  have p: "(256::nat) ^ 5 = 2 ^ 40" "(256::nat) ^ 4 = 2 ^ 32" "(256::nat) ^ 2 = 2 ^ 16" "(256::nat) ^ 6 = 2 ^ 48"
    by simp_all
  show ?thesis
    using nonce toIdx fromIdx tok ff ch
    by (simp add: txCompressedDataLayout_def SetBytes_append SetBytes_Cons SetBytes_bigEndian sig
        del: bigEndian.simps)
qed


text \<open>
  C6. For every pool transaction whose amount \<open>NewFloat16\<close> can represent (and whose
  \<open>ToIdx\<close>, \<open>FromIdx\<close> and \<open>Nonce\<close> lie within their 48, 48 and 40 bits, the
  signature constant having its 4 bytes), \<open>TxCompressedData\<close> returns the integer whose
  31-byte big-endian representation is, from the most significant byte: toBJJSign
  (1 byte), fee (1), nonce (5), tokenID (4), amountFloat16 (2), toIdx (6), fromIdx (6),
  chainID (2), signature constant (4), each field big-endian; that is, each field sits
  at its bit offset in the integer.
\<close>

theorem TxCompressedData_packing:
  assumes "newFloat (Amount tx) = Inr amountF"
    and "unat (Nonce tx) < 2 ^ 40"
    and "unat (ToIdx tx) < 2 ^ 48"
    and "unat (FromIdx tx) < 2 ^ 48"
    and "length (SignatureConstantBytes c) = 4"
  shows "\<exists>v. TxCompressedData c newFloat UnpackSignY tx chainID = Inr v \<and>
           bigEndian 31 v =
             [if fst (UnpackSignY (ToBJJ tx)) then 1 else 0] @ [Fee tx] @
             bigEndian 5 (unat (Nonce tx)) @
             bigEndian 4 (unat (TokenID tx)) @
             bigEndian 2 (unat amountF) @
             bigEndian 6 (unat (ToIdx tx)) @
             bigEndian 6 (unat (FromIdx tx)) @
             bigEndian 2 (unat chainID) @
             SignatureConstantBytes c \<and>
           v = (if fst (UnpackSignY (ToBJJ tx)) then 1 else 0) * 2 ^ 240 +
               unat (Fee tx) * 2 ^ 232 + unat (Nonce tx) * 2 ^ 192 +
               unat (TokenID tx) * 2 ^ 160 + unat amountF * 2 ^ 144 +
               unat (ToIdx tx) * 2 ^ 96 + unat (FromIdx tx) * 2 ^ 48 +
               unat chainID * 2 ^ 32 + SetBytes (SignatureConstantBytes c)"
proof -
  let ?L = "txCompressedDataLayout c (fst (UnpackSignY (ToBJJ tx))) amountF tx chainID"
  have v: "TxCompressedData c newFloat UnpackSignY tx chainID = Inr (SetBytes ?L)"
    using assms by (rule TxCompressedData_layout)
  have "bigEndian (length ?L) (SetBytes ?L) = ?L"
    by (rule bigEndian_SetBytes)
  then have r: "bigEndian 31 (SetBytes ?L) = ?L"
    by (simp only: length_txCompressedDataLayout [OF assms(5)])
  have n: "SetBytes ?L = (if fst (UnpackSignY (ToBJJ tx)) then 1 else 0) * 2 ^ 240 +
               unat (Fee tx) * 2 ^ 232 + unat (Nonce tx) * 2 ^ 192 +
               unat (TokenID tx) * 2 ^ 160 + unat amountF * 2 ^ 144 +
               unat (ToIdx tx) * 2 ^ 96 + unat (FromIdx tx) * 2 ^ 48 +
               unat chainID * 2 ^ 32 + SetBytes (SignatureConstantBytes c)"
    using assms(2-5) by (rule SetBytes_txCompressedDataLayout)
  from v r n show ?thesis
    unfolding txCompressedDataLayout_def by blast
qed

theorem TxCompressedData_packing_witness:
  "newFloat16Small (Amount txTransfer) = Inr 10 \<and>
   unat (Nonce txTransfer) < 2 ^ 40 \<and>
   unat (ToIdx txTransfer) < 2 ^ 48 \<and>
   unat (FromIdx txTransfer) < 2 ^ 48 \<and>
   length (SignatureConstantBytes consts0) = 4 \<and>
   (\<exists>v. TxCompressedData consts0 newFloat16Small unpackSignYStub txTransfer 5 = Inr v \<and>
        bigEndian 31 v =
          [0, 0, 0, 0, 0, 0, 3, 0, 0, 0, 0, 0, 10, 0, 0, 0, 0, 1, 1, 0, 0, 0, 0, 1, 0, 0, 5,
           198, 11, 230, 15])"
proof -
  have h: "newFloat16Small (Amount txTransfer) = Inr 10"
    "unat (Nonce txTransfer) < 2 ^ 40"
    "unat (ToIdx txTransfer) < 2 ^ 48"
    "unat (FromIdx txTransfer) < 2 ^ 48"
    "length (SignatureConstantBytes consts0) = 4"
    by (simp_all add: newFloat16Small_def txTransfer_def consts0_def)
  have e: "[if fst (unpackSignYStub (ToBJJ txTransfer)) then 1 else 0] @ [Fee txTransfer] @
             bigEndian 5 (unat (Nonce txTransfer)) @
             bigEndian 4 (unat (TokenID txTransfer)) @
             bigEndian 2 (unat (10 :: 16 word)) @
             bigEndian 6 (unat (ToIdx txTransfer)) @
             bigEndian 6 (unat (FromIdx txTransfer)) @
             bigEndian 2 (unat (5 :: 16 word)) @
             SignatureConstantBytes consts0 =
          [0, 0, 0, 0, 0, 0, 3, 0, 0, 0, 0, 0, 10, 0, 0, 0, 0, 1, 1, 0, 0, 0, 0, 1, 0, 0, 5,
           198, 11, 230, (15 :: byte)]"
    by (simp add: txTransfer_def emptyPoolL2Tx_def consts0_def unpackSignYStub_def
        EmptyBJJComp_def bigEndian_numeral)
  from TxCompressedData_packing [where newFloat = newFloat16Small and tx = txTransfer
      and c = consts0 and amountF = 10 and UnpackSignY = unpackSignYStub and chainID = 5, OF h]
  have "\<exists>v. TxCompressedData consts0 newFloat16Small unpackSignYStub txTransfer 5 = Inr v \<and>
        bigEndian 31 v =
          [0, 0, 0, 0, 0, 0, 3, 0, 0, 0, 0, 0, 10, 0, 0, 0, 0, 1, 1, 0, 0, 0, 0, 1, 0, 0, 5,
           198, 11, 230, 15]"
    unfolding e by blast
  with h show ?thesis by blast
qed

lemma idToPos_snoc: "idToPos (xs @ [x]) = (idToPos xs)(TxID x \<mapsto> length xs)"
  by (simp add: idToPos_def enumerate_append_eq)

lemma idToPos_Nil: "idToPos [] = Map.empty"
  by (simp add: idToPos_def)

lemma idToPos_None: "idToPos txs x = None \<longleftrightarrow> x \<notin> TxID ` set txs"
  by (induction txs rule: rev_induct) (auto simp: idToPos_snoc idToPos_Nil)

lemma idToPos_Some:
  "idToPos txs x = Some j \<Longrightarrow>
     j < length txs \<and> TxID (txs ! j) = x \<and> (\<forall>k. j < k \<and> k < length txs \<longrightarrow> TxID (txs ! k) \<noteq> x)"
proof (induction txs arbitrary: j rule: rev_induct)
  case Nil
  then show ?case by (simp add: idToPos_Nil)
next
  case (snoc t ts)
  show ?case
  proof (cases "TxID t = x")
    case True
    with snoc.prems have "j = length ts" by (simp add: idToPos_snoc)
    with True show ?thesis by auto
  next
    case False
    with snoc.prems have "idToPos ts x = Some j" by (simp add: idToPos_snoc)
    from snoc.IH [OF this] False show ?thesis
      by (auto simp: nth_append less_Suc_eq)
  qed
qed

lemma addRequests_Some:
  "addRequests m ps g = Some g' \<longleftrightarrow>
     (\<forall>(i, tx)\<in>set ps. RqTxID tx \<noteq> EmptyTxID \<and> m (RqTxID tx) \<noteq> None) \<and>
     g' = g\<lparr>edges := edges g @ map (\<lambda>(i, tx). (i, the (m (RqTxID tx)))) ps\<rparr>"
proof (induction ps arbitrary: g)
  case Nil
  then show ?case by auto
next
  case (Cons p ps)
  obtain i tx where p: "p = (i, tx)" by (cases p)
  show ?case
    by (auto simp: p Cons.IH graph_Add_def split: option.splits)
qed

lemma length_remdups_map_one:
  "length (remdups (map f xs)) = 1 \<longleftrightarrow> xs \<noteq> [] \<and> (\<forall>x\<in>set xs. \<forall>y\<in>set xs. f x = f y)"
proof -
  have "length (remdups (map f xs)) = card (f ` set xs)"
    by (simp add: length_remdups_card_conv)
  also have "\<dots> = 1 \<longleftrightarrow> (\<exists>a. f ` set xs = {a})"
    by (simp add: card_1_singleton_iff)
  also have "\<dots> \<longleftrightarrow> xs \<noteq> [] \<and> (\<forall>x\<in>set xs. \<forall>y\<in>set xs. f x = f y)"
  proof
    assume "\<exists>a. f ` set xs = {a}"
    then obtain a where a: "f ` set xs = {a}" by blast
    then have "xs \<noteq> []" by auto
    moreover from a have "\<forall>x\<in>set xs. f x = a" by blast
    ultimately show "xs \<noteq> [] \<and> (\<forall>x\<in>set xs. \<forall>y\<in>set xs. f x = f y)" by simp
  next
    assume h: "xs \<noteq> [] \<and> (\<forall>x\<in>set xs. \<forall>y\<in>set xs. f x = f y)"
    then obtain x0 where x0: "x0 \<in> set xs" by (cases xs) auto
    have "f y = f x0" if "y \<in> set xs" for y
      using h that x0 by blast
    then have "f ` set xs \<subseteq> {f x0}" by blast
    moreover have "{f x0} \<subseteq> f ` set xs" using x0 by blast
    ultimately have "f ` set xs = {f x0}" by (rule equalityI)
    then show "\<exists>a. f ` set xs = {a}" by (rule exI)
  qed
  finally show ?thesis .
qed

lemma connected_rtrancl: "connected g v w \<longleftrightarrow> (v, w) \<in> (set (edges g))\<^sup>*"
proof
  assume "connected g v w"
  then show "(v, w) \<in> (set (edges g))\<^sup>*"
    unfolding connected_def by (auto intro: trancl_into_rtrancl)
next
  assume "(v, w) \<in> (set (edges g))\<^sup>*"
  then show "connected g v w"
    unfolding connected_def by (auto dest: rtranclD)
qed

lemma StrongComponents_one:
  "length (StrongComponents g) = 1 \<longleftrightarrow> singleComponent (vertices g) (set (edges g))"
proof -
  let ?n = "vertices g"
  have "length (StrongComponents g) = 1 \<longleftrightarrow>
        [0..<?n] \<noteq> [] \<and>
        (\<forall>v\<in>set [0..<?n]. \<forall>w\<in>set [0..<?n]. component g v = component g w)"
    unfolding StrongComponents_def by (rule length_remdups_map_one)
  also have "\<dots> \<longleftrightarrow> 0 < ?n \<and> (\<forall>v<?n. \<forall>w<?n. component g v = component g w)"
    by (simp add: Ball_def)
  also have "(\<forall>v<?n. \<forall>w<?n. component g v = component g w) \<longleftrightarrow>
             (\<forall>v<?n. \<forall>w<?n. connected g v w)"
  proof
    assume eq: "\<forall>v<?n. \<forall>w<?n. component g v = component g w"
    show "\<forall>v<?n. \<forall>w<?n. connected g v w"
    proof (intro allI impI)
      fix v w assume v: "v < ?n" and w: "w < ?n"
      have "w \<in> set (component g w)"
        using w by (simp add: component_def connected_def)
      moreover from eq v w have "component g v = component g w" by blast
      ultimately have "w \<in> set (component g v)" by (simp only:)
      then show "connected g v w" by (simp add: component_def)
    qed
  next
    assume "\<forall>v<?n. \<forall>w<?n. connected g v w"
    then have "component g v = [0..<?n]" if "v < ?n" for v
      using that by (simp add: component_def)
    then show "\<forall>v<?n. \<forall>w<?n. component g v = component g w" by simp
  qed
  finally show ?thesis
    by (simp add: singleComponent_def connected_rtrancl)
qed

lemma rtrancl_needs_incoming:
  assumes "(a, b) \<in> E\<^sup>*" and "a \<noteq> b"
  shows "\<exists>c. (c, b) \<in> E"
  using assms by (auto elim: rtranclE)

lemma singleComponent_incoming:
  assumes "singleComponent n E" and "k < n" and "k' < n" and "k \<noteq> k'"
  shows "\<exists>c. (c, k) \<in> E"
proof -
  from assms have "(k', k) \<in> E\<^sup>*" by (simp add: singleComponent_def)
  with assms(4) show ?thesis using rtrancl_needs_incoming [of k' k E] by auto
qed

lemma enumerate_ball:
  "(\<forall>(i, tx)\<in>set (enumerate 0 txs). P tx) \<longleftrightarrow> (\<forall>tx\<in>set txs. P tx)"
proof
  assume h: "\<forall>(i, tx)\<in>set (enumerate 0 txs). P tx"
  show "\<forall>tx\<in>set txs. P tx"
  proof
    fix tx assume "tx \<in> set txs"
    then obtain i where "i < length txs" "txs ! i = tx" by (auto simp: in_set_conv_nth)
    then have "(i, tx) \<in> set (enumerate 0 txs)" by (simp add: in_set_enumerate_eq)
    with h show "P tx" by auto
  qed
next
  assume h: "\<forall>tx\<in>set txs. P tx"
  show "\<forall>(i, tx)\<in>set (enumerate 0 txs). P tx"
    using h by (auto simp: in_set_enumerate_eq)
qed

lemma codeGraph_iff:
  "(i, j) \<in> codeGraph txs \<longleftrightarrow> i < length txs \<and> j = the (idToPos txs (RqTxID (txs ! i)))"
proof
  assume "(i, j) \<in> codeGraph txs"
  then obtain i' tx where "(i', tx) \<in> set (enumerate 0 txs)" "i = i'"
    "j = the (idToPos txs (RqTxID tx))"
    by (auto simp: codeGraph_def)
  then show "i < length txs \<and> j = the (idToPos txs (RqTxID (txs ! i)))"
    by (auto simp: in_set_enumerate_eq)
next
  assume h: "i < length txs \<and> j = the (idToPos txs (RqTxID (txs ! i)))"
  then have "(i, txs ! i) \<in> set (enumerate 0 txs)"
    by (simp add: in_set_enumerate_eq)
  then have "(\<lambda>(i, tx). (i, the (idToPos txs (RqTxID tx)))) (i, txs ! i) \<in> codeGraph txs"
    unfolding codeGraph_def set_map by (rule imageI)
  with h show "(i, j) \<in> codeGraph txs" by simp
qed

lemma isSingleAtomicGroup_codeGraph:
  "isSingleAtomicGroup txs \<longleftrightarrow> rqInside txs \<and> singleComponent (length txs) (codeGraph txs)"
proof -
  let ?g = "graph_New (length txs)"
  let ?g' = "?g\<lparr>edges := edges ?g @ map (\<lambda>(i, tx). (i, the (idToPos txs (RqTxID tx)))) (enumerate 0 txs)\<rparr>"
  have inside: "(\<forall>(i, tx)\<in>set (enumerate 0 txs). RqTxID tx \<noteq> EmptyTxID \<and> idToPos txs (RqTxID tx) \<noteq> None)
      \<longleftrightarrow> rqInside txs"
    unfolding enumerate_ball by (simp add: rqInside_def idToPos_None)
  have g': "vertices ?g' = length txs" "set (edges ?g') = codeGraph txs"
    by (simp_all add: graph_New_def codeGraph_def)
  show ?thesis
  proof (cases "rqInside txs")
    case True
    with inside have "addRequests (idToPos txs) (enumerate 0 txs) ?g = Some ?g'"
      by (simp add: addRequests_Some)
    then have "isSingleAtomicGroup txs \<longleftrightarrow> length (StrongComponents ?g') = 1"
      by (simp add: isSingleAtomicGroup_def)
    also have "\<dots> \<longleftrightarrow> singleComponent (length txs) (codeGraph txs)"
      by (simp only: StrongComponents_one g')
    finally show ?thesis using True by simp
  next
    case False
    have "addRequests (idToPos txs) (enumerate 0 txs) ?g = None"
    proof (cases "addRequests (idToPos txs) (enumerate 0 txs) ?g")
      case None
      then show ?thesis .
    next
      case (Some a)
      then have "\<forall>(i, tx)\<in>set (enumerate 0 txs). RqTxID tx \<noteq> EmptyTxID \<and> idToPos txs (RqTxID tx) \<noteq> None"
        unfolding addRequests_Some by (rule conjunct1)
      with inside False show ?thesis by simp
    qed
    with False show ?thesis by (simp add: isSingleAtomicGroup_def)
  qed
qed

lemma codeGraph_distinct:
  assumes d: "distinct (map TxID txs)" and ins: "rqInside txs"
  shows "codeGraph txs = rqGraph txs"
proof -
  have uniq: "k = j" if "k < length txs" "j < length txs" "TxID (txs ! k) = TxID (txs ! j)" for k j
    using d that by (metis distinct_conv_nth length_map nth_map)
  show ?thesis
  proof (rule set_eqI, rule prod_cases)
    fix i j
    show "(i, j) \<in> codeGraph txs \<longleftrightarrow> (i, j) \<in> rqGraph txs"
    proof
      assume "(i, j) \<in> codeGraph txs"
      then have i: "i < length txs" and j: "j = the (idToPos txs (RqTxID (txs ! i)))"
        by (simp_all add: codeGraph_iff)
      from ins i have "RqTxID (txs ! i) \<in> TxID ` set txs"
        by (simp add: rqInside_def)
      then obtain p where p: "idToPos txs (RqTxID (txs ! i)) = Some p"
        using idToPos_None [of txs "RqTxID (txs ! i)"] by (cases "idToPos txs (RqTxID (txs ! i))") auto
      with j have jp: "j = p" by simp
      from idToPos_Some [OF p] jp have "j < length txs" "TxID (txs ! j) = RqTxID (txs ! i)"
        by simp_all
      with i show "(i, j) \<in> rqGraph txs"
        by (simp add: rqGraph_def)
    next
      assume "(i, j) \<in> rqGraph txs"
      then have i: "i < length txs" and j: "j < length txs"
        and e: "TxID (txs ! j) = RqTxID (txs ! i)"
        by (simp_all add: rqGraph_def)
      from j e have "RqTxID (txs ! i) \<in> TxID ` set txs"
        by (metis imageI nth_mem)
      then obtain p where p: "idToPos txs (RqTxID (txs ! i)) = Some p"
        using idToPos_None [of txs "RqTxID (txs ! i)"] by (cases "idToPos txs (RqTxID (txs ! i))") auto
      from idToPos_Some [OF p] have "p < length txs" "TxID (txs ! p) = RqTxID (txs ! i)"
        by simp_all
      with uniq [of p j] j e have "p = j" by simp
      with p i show "(i, j) \<in> codeGraph txs"
        by (simp add: codeGraph_iff)
    qed
  qed
qed

lemma duplicates_obtain:
  assumes "\<not> distinct (map TxID txs)"
  obtains k k' where "k < k'" "k' < length txs" "TxID (txs ! k) = TxID (txs ! k')"
proof -
  from assms obtain a b where ab: "a < length txs" "b < length txs" "a \<noteq> b"
    "TxID (txs ! a) = TxID (txs ! b)"
    by (auto simp: distinct_conv_nth)
  show ?thesis
  proof (cases "a < b")
    case True
    with ab that show ?thesis by blast
  next
    case False
    with ab have "b < a" by simp
    with ab that [of b a] show ?thesis by simp
  qed
qed

lemma codeGraph_duplicates:
  assumes "\<not> distinct (map TxID txs)" and ins: "rqInside txs"
  shows "\<not> singleComponent (length txs) (codeGraph txs)"
proof
  assume sc: "singleComponent (length txs) (codeGraph txs)"
  from assms(1) obtain k k' where k: "k < k'" "k' < length txs" "TxID (txs ! k) = TxID (txs ! k')"
    by (rule duplicates_obtain)
  from singleComponent_incoming [OF sc, of k k'] k obtain c where "(c, k) \<in> codeGraph txs"
    by auto
  then have c: "c < length txs" and kc: "k = the (idToPos txs (RqTxID (txs ! c)))"
    by (simp_all add: codeGraph_iff)
  from ins c have "RqTxID (txs ! c) \<in> TxID ` set txs"
    by (simp add: rqInside_def)
  then obtain p where p: "idToPos txs (RqTxID (txs ! c)) = Some p"
    using idToPos_None [of txs "RqTxID (txs ! c)"] by (cases "idToPos txs (RqTxID (txs ! c))") auto
  with kc have "p = k" by simp
  with idToPos_Some [OF p] have "TxID (txs ! k) = RqTxID (txs ! c)"
    and "\<forall>l. k < l \<and> l < length txs \<longrightarrow> TxID (txs ! l) \<noteq> RqTxID (txs ! c)"
    by simp_all
  with k show False by auto
qed

text \<open>
  With a repeated identifier the claim does not hold as it is worded: in
  \<open>[txA, txBBack, txATwin]\<close> every \<open>RqTxID\<close> is non-empty and names a member, and the
  request graph, with the edges 0-1, 1-0, 1-2 and 2-1, is one strongly connected component
  covering the three positions; the code keeps for the repeated identifier the last
  position only, adds the edges 0-1, 1-2 and 2-1, finds two components and returns false.
\<close>

lemma addRequests_twin:
  "addRequests (idToPos [txA, txBBack, txATwin]) (enumerate 0 [txA, txBBack, txATwin])
     (graph_New (length [txA, txBBack, txATwin]))
     = Some \<lparr>vertices = 3, edges = [(0, 1), (1, 2), (2, 1)]\<rparr>"
  by (simp add: idToPos_def graph_New_def graph_Add_def txA_def txB_def txBBack_def txATwin_def
      EmptyTxID_eq)

lemma twin_components:
  "length (StrongComponents \<lparr>vertices = 3, edges = [(0, 1), (1, 2), (2, 1)]\<rparr>) \<noteq> 1"
  by code_simp

lemma twin_rqGraph:
  "rqGraph [txA, txBBack, txATwin] = {(0, Suc 0), (Suc 0, 0), (Suc 0, 2), (2, Suc 0)}"
proof -
  have ids: "TxID txA = [2, 0, 0, 0, 0, 1, 0, 0, 0, 0, 0, 0]"
    "TxID txBBack = [2, 0, 0, 0, 0, 1, 1, 0, 0, 0, 0, 0]"
    "TxID txATwin = [2, 0, 0, 0, 0, 1, 0, 0, 0, 0, 0, 0]"
    "RqTxID txA = [2, 0, 0, 0, 0, 1, 1, 0, 0, 0, 0, 0]"
    "RqTxID txBBack = [2, 0, 0, 0, 0, 1, 0, 0, 0, 0, 0, 0]"
    "RqTxID txATwin = [2, 0, 0, 0, 0, 1, 1, 0, 0, 0, 0, 0]"
    by (simp_all add: txA_def txB_def txBBack_def txATwin_def)
  have pt: "(i, j) \<in> rqGraph [txA, txBBack, txATwin] \<longleftrightarrow>
        (i, j) \<in> {(0, Suc 0), (Suc 0, 0), (Suc 0, 2), (2, Suc 0)}" for i j
  proof -
    have ci: "i = 0 \<or> i = Suc 0 \<or> i = 2 \<or> 3 \<le> i" by arith
    have cj: "j = 0 \<or> j = Suc 0 \<or> j = 2 \<or> 3 \<le> j" by arith
    from ci cj show ?thesis
      by (elim disjE) (simp_all add: rqGraph_def ids)
  qed
  show ?thesis
  proof (rule set_eqI)
    fix x :: "nat \<times> nat"
    obtain i j where x: "x = (i, j)" by (cases x)
    show "x \<in> rqGraph [txA, txBBack, txATwin] \<longleftrightarrow>
          x \<in> {(0, Suc 0), (Suc 0, 0), (Suc 0, 2), (2, Suc 0)}"
      unfolding x by (rule pt)
  qed
qed

lemma twin_single: "singleComponent 3 {(0, Suc 0), (Suc 0, 0), (Suc 0, 2), (2 :: nat, Suc 0)}"
proof -
  let ?E = "{(0, Suc 0), (Suc 0, 0), (Suc 0, 2), (2 :: nat, Suc 0)}"
  have e: "(0, Suc 0) \<in> ?E\<^sup>*" "(Suc 0, 0) \<in> ?E\<^sup>*" "(Suc 0, 2) \<in> ?E\<^sup>*" "(2, Suc 0) \<in> ?E\<^sup>*"
    by (rule r_into_rtrancl, simp)+
  have far: "(0, 2) \<in> ?E\<^sup>*" "(2, 0) \<in> ?E\<^sup>*"
    using e(1,3) apply (rule rtrancl_trans)
    using e(4,2) apply (rule rtrancl_trans)
    done
  have all: "(i, j) \<in> ?E\<^sup>*" if "i < 3" "j < 3" for i j
  proof -
    from that have ci: "i = 0 \<or> i = Suc 0 \<or> i = 2" by arith
    from that have cj: "j = 0 \<or> j = Suc 0 \<or> j = 2" by arith
    from ci cj e far show ?thesis
      by (elim disjE) (simp_all only: rtrancl.rtrancl_refl)
  qed
  then show ?thesis
    by (simp add: singleComponent_def)
qed

theorem isSingleAtomicGroup_duplicate_counterexample:
  "rqInside [txA, txBBack, txATwin] \<and>
   singleComponent (length [txA, txBBack, txATwin]) (rqGraph [txA, txBBack, txATwin]) \<and>
   \<not> isSingleAtomicGroup [txA, txBBack, txATwin]"
proof -
  have "rqInside [txA, txBBack, txATwin]"
    by (simp add: rqInside_def txA_def txB_def txBBack_def txATwin_def EmptyTxID_eq)
  moreover have "singleComponent (length [txA, txBBack, txATwin]) (rqGraph [txA, txBBack, txATwin])"
  proof -
    have "length [txA, txBBack, txATwin] = 3" by simp
    then show ?thesis unfolding twin_rqGraph by (simp only: twin_single)
  qed
  moreover have "\<not> isSingleAtomicGroup [txA, txBBack, txATwin]"
    unfolding isSingleAtomicGroup_def addRequests_twin option.case by (rule twin_components)
  ultimately show ?thesis by blast
qed

text \<open>
  C2, amended. For every list of pool transactions with pairwise distinct \<open>TxID\<close>s,
  \<open>isSingleAtomicGroup\<close> returns true if and only if every \<open>RqTxID\<close> is non-empty and
  is the \<open>TxID\<close> of a member, and the directed graph with an edge from each transaction
  to the transaction named by its \<open>RqTxID\<close> has exactly one strongly connected component
  covering all transactions. A list in which two transactions share a \<open>TxID\<close> is never a
  single atomic group. For every list, it returns false whenever some transaction has an
  empty \<open>RqTxID\<close> or an \<open>RqTxID\<close> that matches no transaction of the list.
\<close>

theorem isSingleAtomicGroup_iff:
  "(distinct (map TxID txs) \<longrightarrow>
      (isSingleAtomicGroup txs \<longleftrightarrow>
         rqInside txs \<and> singleComponent (length txs) (rqGraph txs))) \<and>
   (\<not> distinct (map TxID txs) \<longrightarrow> \<not> isSingleAtomicGroup txs) \<and>
   ((\<exists>tx\<in>set txs. RqTxID tx = EmptyTxID \<or> RqTxID tx \<notin> TxID ` set txs) \<longrightarrow>
      \<not> isSingleAtomicGroup txs)"
proof -
  have main: "isSingleAtomicGroup txs \<longleftrightarrow> rqInside txs \<and> singleComponent (length txs) (rqGraph txs)"
    if d: "distinct (map TxID txs)"
  proof (cases "rqInside txs")
    case False
    then show ?thesis by (simp add: isSingleAtomicGroup_codeGraph)
  next
    case True
    show ?thesis
      by (simp add: isSingleAtomicGroup_codeGraph codeGraph_distinct [OF d True])
  qed
  have dup: "\<not> isSingleAtomicGroup txs" if d: "\<not> distinct (map TxID txs)"
  proof (cases "rqInside txs")
    case False
    then show ?thesis by (simp add: isSingleAtomicGroup_codeGraph)
  next
    case True
    from codeGraph_duplicates [OF d True] show ?thesis
      by (simp add: isSingleAtomicGroup_codeGraph)
  qed
  have out: "\<not> isSingleAtomicGroup txs"
    if "\<exists>tx\<in>set txs. RqTxID tx = EmptyTxID \<or> RqTxID tx \<notin> TxID ` set txs"
  proof -
    from that have "\<not> rqInside txs" by (auto simp: rqInside_def)
    then show ?thesis by (simp add: isSingleAtomicGroup_codeGraph)
  qed
  from main dup out show ?thesis by blast
qed

lemma cycle_components:
  "length (StrongComponents \<lparr>vertices = 3, edges = [(0, 1), (1, 2), (2, 0)]\<rparr>) = 1"
  by code_simp

lemma addRequests_cycle:
  "addRequests (idToPos [txA, txB, txC]) (enumerate 0 [txA, txB, txC]) (graph_New (length [txA, txB, txC]))
     = Some \<lparr>vertices = 3, edges = [(0, 1), (1, 2), (2, 0)]\<rparr>"
  by (simp add: idToPos_def graph_New_def graph_Add_def txA_def txB_def txC_def EmptyTxID_eq)

theorem isSingleAtomicGroup_iff_witness:
  "distinct (map TxID [txA, txB, txC]) \<and>
   isSingleAtomicGroup [txA, txB, txC] \<and>
   rqInside [txA, txB, txC] \<and>
   singleComponent (length [txA, txB, txC]) (rqGraph [txA, txB, txC]) \<and>
   \<not> distinct (map TxID [txA, txB, txATwin]) \<and>
   \<not> isSingleAtomicGroup [txA, txB, txATwin] \<and>
   (\<exists>tx\<in>set [txA, txB, txCOutside]. RqTxID tx = EmptyTxID \<or> RqTxID tx \<notin> TxID ` set [txA, txB, txCOutside]) \<and>
   \<not> isSingleAtomicGroup [txA, txB, txCOutside]"
proof -
  have d: "distinct (map TxID [txA, txB, txC])"
    by (simp add: txA_def txB_def txC_def)
  have yes: "isSingleAtomicGroup [txA, txB, txC]"
    unfolding isSingleAtomicGroup_def addRequests_cycle option.case by (rule cycle_components)
  have twin: "\<not> distinct (map TxID [txA, txB, txATwin])"
    by (simp add: txA_def txB_def txATwin_def)
  have out: "\<exists>tx\<in>set [txA, txB, txCOutside]. RqTxID tx = EmptyTxID \<or> RqTxID tx \<notin> TxID ` set [txA, txB, txCOutside]"
    by (simp add: txA_def txB_def txC_def txCOutside_def)
  from d yes isSingleAtomicGroup_iff [of "[txA, txB, txC]"]
  have "rqInside [txA, txB, txC] \<and> singleComponent (length [txA, txB, txC]) (rqGraph [txA, txB, txC])"
    by blast
  moreover from twin isSingleAtomicGroup_iff [of "[txA, txB, txATwin]"]
  have "\<not> isSingleAtomicGroup [txA, txB, txATwin]"
    by blast
  moreover from out isSingleAtomicGroup_iff [of "[txA, txB, txCOutside]"]
  have "\<not> isSingleAtomicGroup [txA, txB, txCOutside]"
    by blast
  ultimately show ?thesis using d yes twin out by blast
qed

text \<open>The modelled rules give the expected values of all ten cases of
  \<open>TestComputeEffectiveAmounts\<close> (pairs: effective deposit amount, effective amount).\<close>

lemma computeEffectiveAmounts_tests:
  "effectiveAmounts (computeEffectiveAmounts consts0 testAccounts
      (testL1Tx 256 257 10 0 10 0 TxTypeUnset)) = (Some 0, Some 10)"
  "effectiveAmounts (computeEffectiveAmounts consts0 testAccounts
      (testL1Tx 256 257 11 0 10 0 TxTypeUnset)) = (Some 0, Some 0)"
  "effectiveAmounts (computeEffectiveAmounts consts0 testAccounts
      (testL1Tx 0 257 10 10 0 0 TxTypeUnset)) = (Some 10, Some 10)"
  "effectiveAmounts (computeEffectiveAmounts consts0 testAccounts
      (testL1Tx 0 257 11 10 0 0 TxTypeUnset)) = (Some 10, Some 0)"
  "effectiveAmounts (computeEffectiveAmounts consts0 testAccounts
      (testL1Tx 256 258 5 0 10 0 TxTypeUnset)) = (Some 0, Some 0)"
  "effectiveAmounts (computeEffectiveAmounts consts0 testAccounts
      (testL1Tx 256 257 8 0 11 0 TxTypeUnset)) = (Some 0, Some 0)"
  "effectiveAmounts (computeEffectiveAmounts consts0 testAccounts
      (testL1Tx 256 257 20 8 10 0 TxTypeUnset)) = (Some 8, Some 0)"
  "effectiveAmounts (computeEffectiveAmounts consts0 testAccounts
      (testL1Tx 256 257 8 8 11 0 TxTypeUnset)) = (Some 8, Some 0)"
  "effectiveAmounts (computeEffectiveAmounts consts0 testAccounts
      (testL1Tx 0 257 8 8 10 2 TxTypeCreateAccountDepositTransfer)) = (Some 8, Some 0)"
  "effectiveAmounts (computeEffectiveAmounts consts0 testAccounts
      (testL1Tx 258 256 8 8 12 1 TxTypeDepositTransfer)) = (Some 8, Some 0)"
  by (simp_all add: effectiveAmounts_def computeEffectiveAmounts_def testL1Tx_def testAccounts_def
      consts0_def senderAccount_def senderBalance_def recipientSpecified_def Let_def
      word_le_nat_alt)

text \<open>
  C3. For every L1 user-origin transaction the computed \<open>EffectiveDepositAmount\<close> equals
  \<open>DepositAmount\<close>, and if the pre-existing balance of the sender plus the effective
  deposit amount is less than \<open>Amount\<close>, then \<open>EffectiveAmount\<close> is 0: the deposit still
  lands while the transfer part is zeroed.
\<close>

theorem computeEffectiveAmounts_deposit:
  "UserOrigin tx \<longrightarrow>
     EffectiveDepositAmount (computeEffectiveAmounts c accounts tx) = Some (DepositAmount tx) \<and>
     (senderBalance accounts tx + DepositAmount tx < L1Tx.Amount tx \<longrightarrow>
        EffectiveAmount (computeEffectiveAmounts c accounts tx) = Some 0)"
  by (simp add: computeEffectiveAmounts_def Let_def)

theorem computeEffectiveAmounts_deposit_witness:
  "UserOrigin (testL1Tx 256 257 20 8 10 0 TxTypeDepositTransfer) \<and>
   senderBalance testAccounts (testL1Tx 256 257 20 8 10 0 TxTypeDepositTransfer)
     + DepositAmount (testL1Tx 256 257 20 8 10 0 TxTypeDepositTransfer)
     < L1Tx.Amount (testL1Tx 256 257 20 8 10 0 TxTypeDepositTransfer) \<and>
   EffectiveDepositAmount (computeEffectiveAmounts consts0 testAccounts
      (testL1Tx 256 257 20 8 10 0 TxTypeDepositTransfer)) = Some 8 \<and>
   EffectiveAmount (computeEffectiveAmounts consts0 testAccounts
      (testL1Tx 256 257 20 8 10 0 TxTypeDepositTransfer)) = Some 0"
proof -
  have u: "UserOrigin (testL1Tx 256 257 20 8 10 0 TxTypeDepositTransfer)"
    by (simp add: testL1Tx_def)
  have b: "senderBalance testAccounts (testL1Tx 256 257 20 8 10 0 TxTypeDepositTransfer)
     + DepositAmount (testL1Tx 256 257 20 8 10 0 TxTypeDepositTransfer)
     < L1Tx.Amount (testL1Tx 256 257 20 8 10 0 TxTypeDepositTransfer)"
    by (simp add: testL1Tx_def senderBalance_def senderAccount_def testAccounts_def)
  have d: "DepositAmount (testL1Tx 256 257 20 8 10 0 TxTypeDepositTransfer) = 8"
    by (simp add: testL1Tx_def)
  from computeEffectiveAmounts_deposit [of "testL1Tx 256 257 20 8 10 0 TxTypeDepositTransfer"
      consts0 testAccounts] u b d
  show ?thesis by simp
qed

subsection \<open>Ordering: the first loop of \<open>sortL2Txs\<close>\<close>

lemma separateAtomicTxs_snoc:
  "separateAtomicTxs (xs @ [tx]) =
     (case separateAtomicTxs xs of (m, n) \<Rightarrow>
        if AtomicGroupID tx \<noteq> EmptyAtomicGroupID then (appendToGroup tx m, n) else (m, n @ [tx]))"
  by (simp add: separateAtomicTxs_def)

lemma separateAtomicTxs_Nil: "separateAtomicTxs [] = ([], [])"
  by (simp add: separateAtomicTxs_def)

lemma separateAtomicTxs_snd:
  "snd (separateAtomicTxs xs) = filter (\<lambda>t. \<not> isAtomicTx t) xs"
proof (induction xs rule: rev_induct)
  case Nil
  then show ?case by (simp add: separateAtomicTxs_Nil)
next
  case (snoc tx xs)
  obtain m n where mn: "separateAtomicTxs xs = (m, n)" by (cases "separateAtomicTxs xs")
  with snoc have "n = filter (\<lambda>t. \<not> isAtomicTx t) xs" by simp
  then show ?case
    by (simp add: separateAtomicTxs_snoc mn isAtomicTx_def)
qed

lemma appendToGroup_map_of:
  "map_of (appendToGroup tx m) =
     (map_of m)(AtomicGroupID tx \<mapsto>
        (case map_of m (AtomicGroupID tx) of None \<Rightarrow> [tx] | Some txs \<Rightarrow> txs @ [tx]))"
  by (induction tx m rule: appendToGroup.induct) (auto simp: fun_eq_iff)

lemma appendToGroup_keys:
  "map fst (appendToGroup tx m) =
     (if AtomicGroupID tx \<in> set (map fst m) then map fst m else map fst m @ [AtomicGroupID tx])"
  by (induction tx m rule: appendToGroup.induct) auto

lemma appendToGroup_distinct:
  "distinct (map fst m) \<Longrightarrow> distinct (map fst (appendToGroup tx m))"
  by (simp add: appendToGroup_keys)

lemma filter_empty_no_member:
  "\<not> (\<exists>t\<in>set xs. P t) \<Longrightarrow> filter P xs = []"
  by (simp add: filter_empty_conv)

lemma separateAtomicTxs_fst: "groupsInv xs (fst (separateAtomicTxs xs))"
proof (induction xs rule: rev_induct)
  case Nil
  then show ?case by (simp add: groupsInv_def separateAtomicTxs_Nil)
next
  case (snoc tx xs)
  obtain m n where mn: "separateAtomicTxs xs = (m, n)" by (cases "separateAtomicTxs xs")
  with snoc have inv: "groupsInv xs m" by simp
  show ?case
  proof (cases "AtomicGroupID tx \<noteq> EmptyAtomicGroupID")
    case False
    then have "fst (separateAtomicTxs (xs @ [tx])) = m"
      by (simp add: separateAtomicTxs_snoc mn)
    moreover have "groupsInv (xs @ [tx]) m"
      using inv False unfolding groupsInv_def by auto
    ultimately show ?thesis by simp
  next
    case True
    then have r: "fst (separateAtomicTxs (xs @ [tx])) = appendToGroup tx m"
      by (simp add: separateAtomicTxs_snoc mn)
    have d: "distinct (map fst (appendToGroup tx m))"
      using inv by (simp add: groupsInv_def appendToGroup_distinct)
    have mo: "map_of m g =
        (if g \<noteq> EmptyAtomicGroupID \<and> (\<exists>t\<in>set xs. AtomicGroupID t = g)
         then Some (filter (\<lambda>t. AtomicGroupID t = g) xs) else None)" for g
      using inv by (simp add: groupsInv_def)
    have "map_of (appendToGroup tx m) g =
        (if g \<noteq> EmptyAtomicGroupID \<and> (\<exists>t\<in>set (xs @ [tx]). AtomicGroupID t = g)
         then Some (filter (\<lambda>t. AtomicGroupID t = g) (xs @ [tx])) else None)" for g
    proof (cases "g = AtomicGroupID tx")
      case g: True
      show ?thesis
      proof (cases "\<exists>t\<in>set xs. AtomicGroupID t = g")
        case True
        then show ?thesis using g \<open>AtomicGroupID tx \<noteq> EmptyAtomicGroupID\<close>
          by (simp add: appendToGroup_map_of mo)
      next
        case False
        then have "filter (\<lambda>t. AtomicGroupID t = g) xs = []"
          by (rule filter_empty_no_member)
        with False show ?thesis using g \<open>AtomicGroupID tx \<noteq> EmptyAtomicGroupID\<close>
          by (simp add: appendToGroup_map_of mo)
      qed
    next
      case False
      then show ?thesis
        by (simp add: appendToGroup_map_of mo)
    qed
    with d have "groupsInv (xs @ [tx]) (appendToGroup tx m)"
      unfolding groupsInv_def by blast
    with r show ?thesis by simp
  qed
qed


lemma groupsInv_entry:
  assumes inv: "groupsInv xs m" and mem: "(g, l) \<in> set m"
  shows "g \<noteq> EmptyAtomicGroupID" and "l \<noteq> []" and "AtomicGroupID (hd l) = g"
    and "l = filter (\<lambda>t. AtomicGroupID t = g) xs"
proof -
  from inv have d: "distinct (map fst m)" by (simp add: groupsInv_def)
  from map_of_is_SomeI [OF d mem] have s: "map_of m g = Some l" .
  from inv have "map_of m g =
        (if g \<noteq> EmptyAtomicGroupID \<and> (\<exists>t\<in>set xs. AtomicGroupID t = g)
         then Some (filter (\<lambda>t. AtomicGroupID t = g) xs) else None)"
    by (simp add: groupsInv_def)
  with s have g: "g \<noteq> EmptyAtomicGroupID" and ex: "\<exists>t\<in>set xs. AtomicGroupID t = g"
    and l: "l = filter (\<lambda>t. AtomicGroupID t = g) xs"
    by (simp_all split: if_splits)
  from ex l have ne: "l \<noteq> []" by (simp add: filter_empty_conv)
  then have "hd l \<in> set l" by simp
  with l have "AtomicGroupID (hd l) = g" by simp
  with g ne l show "g \<noteq> EmptyAtomicGroupID" and "l \<noteq> []" and "AtomicGroupID (hd l) = g"
    and "l = filter (\<lambda>t. AtomicGroupID t = g) xs" by simp_all
qed

lemma groups_facts:
  assumes rc: "mapRangeContract mapRange"
    and m: "m = fst (separateAtomicTxs l2Txs)"
    and G: "G = sort_key (\<lambda>g. - groupFee fee g) (map snd (mapRange m))"
  shows "\<forall>l\<in>set G. l \<noteq> [] \<and> AtomicGroupID (hd l) \<noteq> EmptyAtomicGroupID \<and>
           l = filter (\<lambda>t. AtomicGroupID t = AtomicGroupID (hd l)) l2Txs"
    and "distinct (map (\<lambda>l. AtomicGroupID (hd l)) G)"
    and "\<forall>t\<in>set l2Txs. isAtomicTx t \<longrightarrow> (\<exists>l\<in>set G. AtomicGroupID (hd l) = AtomicGroupID t)"
    and "sorted_wrt (\<lambda>l l'. groupFee fee l' \<le> groupFee fee l) G"
proof -
  have inv: "groupsInv l2Txs m" unfolding m by (rule separateAtomicTxs_fst)
  from rc have perm: "mset (mapRange m) = mset m" by (simp add: mapRangeContract_def)
  then have setm: "set (mapRange m) = set m" by (rule mset_eq_setD)
  have setG: "set G = snd ` set m" unfolding G by (simp add: setm)
  show "\<forall>l\<in>set G. l \<noteq> [] \<and> AtomicGroupID (hd l) \<noteq> EmptyAtomicGroupID \<and>
           l = filter (\<lambda>t. AtomicGroupID t = AtomicGroupID (hd l)) l2Txs"
  proof
    fix l assume "l \<in> set G"
    with setG obtain g where "(g, l) \<in> set m" by auto
    from groupsInv_entry [OF inv this]
    show "l \<noteq> [] \<and> AtomicGroupID (hd l) \<noteq> EmptyAtomicGroupID \<and>
           l = filter (\<lambda>t. AtomicGroupID t = AtomicGroupID (hd l)) l2Txs"
      by simp
  qed
  have "mset (map (\<lambda>l. AtomicGroupID (hd l)) G) =
        image_mset (\<lambda>p. AtomicGroupID (hd (snd p))) (mset (mapRange m))"
    unfolding G by (simp add: image_mset.compositionality comp_def)
  also have "\<dots> = image_mset (\<lambda>p. AtomicGroupID (hd (snd p))) (mset m)"
    by (simp only: perm)
  also have "\<dots> = image_mset fst (mset m)"
  proof (rule image_mset_cong)
    fix p assume "p \<in># mset m"
    then have "(fst p, snd p) \<in> set m" by simp
    from groupsInv_entry(3) [OF inv this] show "AtomicGroupID (hd (snd p)) = fst p" .
  qed
  finally have "mset (map (\<lambda>l. AtomicGroupID (hd l)) G) = mset (map fst m)" by simp
  moreover from inv have "distinct (map fst m)" by (simp add: groupsInv_def)
  ultimately show "distinct (map (\<lambda>l. AtomicGroupID (hd l)) G)"
    using mset_eq_imp_distinct_iff by blast
  show "\<forall>t\<in>set l2Txs. isAtomicTx t \<longrightarrow> (\<exists>l\<in>set G. AtomicGroupID (hd l) = AtomicGroupID t)"
  proof (intro ballI impI)
    fix t assume t: "t \<in> set l2Txs" and a: "isAtomicTx t"
    from inv have "map_of m (AtomicGroupID t) =
        (if AtomicGroupID t \<noteq> EmptyAtomicGroupID \<and> (\<exists>u\<in>set l2Txs. AtomicGroupID u = AtomicGroupID t)
         then Some (filter (\<lambda>u. AtomicGroupID u = AtomicGroupID t) l2Txs) else None)"
      by (simp add: groupsInv_def)
    with t a have "map_of m (AtomicGroupID t) =
        Some (filter (\<lambda>u. AtomicGroupID u = AtomicGroupID t) l2Txs)"
      by (auto simp: isAtomicTx_def)
    then have mem: "(AtomicGroupID t, filter (\<lambda>u. AtomicGroupID u = AtomicGroupID t) l2Txs) \<in> set m"
      by (rule map_of_SomeD)
    then have "filter (\<lambda>u. AtomicGroupID u = AtomicGroupID t) l2Txs \<in> set G"
      unfolding setG by (rule image_eqI [rotated]) simp
    moreover from groupsInv_entry(3) [OF inv mem]
    have "AtomicGroupID (hd (filter (\<lambda>u. AtomicGroupID u = AtomicGroupID t) l2Txs)) = AtomicGroupID t" .
    ultimately show "\<exists>l\<in>set G. AtomicGroupID (hd l) = AtomicGroupID t" by blast
  qed
  have "sorted (map (\<lambda>g. - groupFee fee g) G)"
    unfolding G by (rule sorted_sort_key)
  then show "sorted_wrt (\<lambda>l l'. groupFee fee l' \<le> groupFee fee l) G"
    by (simp add: sorted_map)
qed

subsection \<open>Ordering: the merge\<close>

lemma set_mergeTxs: "set (mergeTxs fee xs G) = set xs \<union> (\<Union>l\<in>set G. set l)"
  by (induction fee xs G rule: mergeTxs.induct) auto

lemma filter_nonAtomic_mergeTxs:
  assumes "\<forall>t\<in>set xs. \<not> isAtomicTx t" and "\<forall>l\<in>set G. \<forall>t\<in>set l. isAtomicTx t"
  shows "filter (\<lambda>t. \<not> isAtomicTx t) (mergeTxs fee xs G) = xs"
  using assms
  by (induction fee xs G rule: mergeTxs.induct) (auto simp: filter_empty_conv filter_id_conv)

lemma filter_atomic_mergeTxs:
  assumes "\<forall>t\<in>set xs. \<not> isAtomicTx t" and "\<forall>l\<in>set G. \<forall>t\<in>set l. isAtomicTx t"
  shows "filter isAtomicTx (mergeTxs fee xs G) = concat G"
  using assms
proof (induction fee xs G rule: mergeTxs.induct)
  case (1 fee G)
  then show ?case by (auto simp: filter_id_conv)
next
  case (2 fee v va)
  then show ?case by (auto simp: filter_empty_conv)
next
  case (3 fee tx xs g G)
  then show ?case by (auto simp: filter_id_conv)
qed

lemma sorted_wrt_all_atomic:
  "\<forall>t\<in>set ys. isAtomicTx t \<Longrightarrow> sorted_wrt (mergedByFee fee) ys"
  by (induction ys) (auto simp: mergedByFee_def)

lemma sorted_wrt_none_atomic:
  "\<forall>t\<in>set ys. \<not> isAtomicTx t \<Longrightarrow> sorted_wrt (mergedByFee fee) ys"
  by (induction ys) (auto simp: mergedByFee_def)

lemma sorted_wrt_mergeTxs:
  assumes "\<forall>t\<in>set xs. \<not> isAtomicTx t"
    and "\<forall>l\<in>set G. \<forall>t\<in>set l. isAtomicTx t \<and> lookupFee fee (AtomicGroupID t) = groupFee fee l"
    and "sorted_wrt (\<lambda>a b. AbsoluteFee b \<le> AbsoluteFee a) xs"
    and "sorted_wrt (\<lambda>l l'. groupFee fee l' \<le> groupFee fee l) G"
  shows "sorted_wrt (mergedByFee fee) (mergeTxs fee xs G)"
  using assms
proof (induction fee xs G rule: mergeTxs.induct)
  case (1 fee G)
  then have "\<forall>t\<in>set (concat G). isAtomicTx t" by auto
  then show ?case by (simp add: sorted_wrt_all_atomic del: set_concat)
next
  case (2 fee v va)
  then have "\<forall>t\<in>set (v # va). \<not> isAtomicTx t" by simp
  then have "sorted_wrt (mergedByFee fee) (v # va)" by (rule sorted_wrt_none_atomic)
  then show ?case by (simp only: mergeTxs.simps)
next
  case (3 fee tx xs g G)
  show ?case
  proof (cases "groupFee fee g < AbsoluteFee tx")
    case True
    have ih: "sorted_wrt (mergedByFee fee) (mergeTxs fee xs (g # G))"
      using 3 True by simp
    have "mergedByFee fee tx y" if y: "y \<in> set (mergeTxs fee xs (g # G))" for y
    proof (cases "isAtomicTx y")
      case False
      then show ?thesis using 3(3) by (simp add: mergedByFee_def)
    next
      case a: True
      with y 3(3) obtain l where l: "l \<in> set (g # G)" "y \<in> set l"
        by (auto simp: set_mergeTxs)
      with 3(4) have f: "lookupFee fee (AtomicGroupID y) = groupFee fee l" by blast
      from l(1) 3(6) have "groupFee fee l \<le> groupFee fee g" by auto
      with f True 3(3) show ?thesis by (simp add: mergedByFee_def)
    qed
    with ih True show ?thesis by simp
  next
    case False
    have ih: "sorted_wrt (mergedByFee fee) (mergeTxs fee (tx # xs) G)"
      using 3 False by simp
    have g: "sorted_wrt (mergedByFee fee) g"
      using 3(4) by (simp add: sorted_wrt_all_atomic)
    have "mergedByFee fee a b" if a: "a \<in> set g" and b: "b \<in> set (mergeTxs fee (tx # xs) G)" for a b
    proof (cases "isAtomicTx b")
      case True
      moreover from a 3(4) have "isAtomicTx a" by simp
      ultimately show ?thesis by (simp add: mergedByFee_def)
    next
      case nb: False
      from a 3(4) have aa: "isAtomicTx a" and fa: "lookupFee fee (AtomicGroupID a) = groupFee fee g"
        by simp_all
      from b nb 3(4) have "b \<in> set (tx # xs)"
        by (auto simp: set_mergeTxs)
      with 3(5) have "AbsoluteFee b \<le> AbsoluteFee tx" by auto
      with False fa aa nb show ?thesis by (simp add: mergedByFee_def)
    qed
    with ih g False show ?thesis by (simp add: sorted_wrt_append)
  qed
qed

lemma filter_key_single:
  assumes "distinct (map key G)" and "l \<in> set G"
  shows "filter (\<lambda>l'. key l' = key l) G = [l]"
  using assms
proof (induction G)
  case Nil
  then show ?case by simp
next
  case (Cons a G)
  show ?case
  proof (cases "a = l")
    case True
    with Cons.prems have "\<forall>l'\<in>set G. key l' \<noteq> key l" by (auto simp: image_iff)
    then have "filter (\<lambda>l'. key l' = key l) G = []" by (simp add: filter_empty_conv)
    with True show ?thesis by simp
  next
    case False
    with Cons.prems have l: "l \<in> set G" by simp
    with Cons.prems have "key a \<noteq> key l" by (auto simp: image_iff)
    with Cons.IH l Cons.prems show ?thesis by simp
  qed
qed

lemma filter_concat_groups:
  assumes "\<forall>l\<in>set G. \<forall>t\<in>set l. AtomicGroupID t = key l"
  shows "filter (\<lambda>t. AtomicGroupID t = g) (concat G) = concat (filter (\<lambda>l. key l = g) G)"
  using assms
  by (induction G) (auto simp: filter_empty_conv filter_id_conv)


subsection \<open>Ordering: the contracts of the sorts\<close>

lemma not_nonAtomicLess_iff: "\<not> nonAtomicLess b a \<longleftrightarrow> byFeeIdxNonce a b"
  by (auto simp: nonAtomicLess_def byFeeIdxNonce_def)

lemma byFeeIdxNonce_trans:
  "byFeeIdxNonce a b \<Longrightarrow> byFeeIdxNonce b c \<Longrightarrow> byFeeIdxNonce a c"
  unfolding byFeeIdxNonce_def by (elim disjE conjE) auto

lemma nonAtomicLess_byFeeIdxNonce: "nonAtomicLess a b \<Longrightarrow> byFeeIdxNonce a b"
  by (auto simp: nonAtomicLess_def byFeeIdxNonce_def split: if_splits)

lemma byFeeIdxNonce_fee: "byFeeIdxNonce a b \<Longrightarrow> AbsoluteFee b \<le> AbsoluteFee a"
  by (auto simp: byFeeIdxNonce_def)

lemma mset_insertBy: "mset (insertBy lt x xs) = add_mset x (mset xs)"
  by (induction xs) auto

lemma insertionSort_Cons: "insertionSort lt (x # xs) = insertBy lt x (insertionSort lt xs)"
  by (simp add: insertionSort_def)

lemma mset_insertionSort: "mset (insertionSort lt xs) = mset xs"
  by (induction xs) (simp_all add: insertionSort_Cons mset_insertBy, simp add: insertionSort_def)

lemma set_insertBy: "set (insertBy lt x xs) = insert x (set xs)"
  by (induction xs) auto

lemma sorted_insertBy:
  assumes "sorted_wrt byFeeIdxNonce xs"
  shows "sorted_wrt byFeeIdxNonce (insertBy nonAtomicLess x xs)"
  using assms
proof (induction xs)
  case Nil
  then show ?case by simp
next
  case (Cons y ys)
  show ?case
  proof (cases "nonAtomicLess x y")
    case True
    then have xy: "byFeeIdxNonce x y" by (rule nonAtomicLess_byFeeIdxNonce)
    have "byFeeIdxNonce x z" if "z \<in> set ys" for z
    proof -
      from Cons.prems that have "byFeeIdxNonce y z" by simp
      with xy show ?thesis by (rule byFeeIdxNonce_trans)
    qed
    with xy True Cons.prems show ?thesis by simp
  next
    case False
    then have yx: "byFeeIdxNonce y x" by (simp add: not_nonAtomicLess_iff)
    from Cons have "sorted_wrt byFeeIdxNonce (insertBy nonAtomicLess x ys)" by simp
    with yx False Cons.prems show ?thesis by (simp add: set_insertBy)
  qed
qed

lemma sorted_insertionSort: "sorted_wrt byFeeIdxNonce (insertionSort nonAtomicLess xs)"
proof (induction xs)
  case Nil
  then show ?case by (simp add: insertionSort_def)
next
  case (Cons x xs)
  then show ?case by (simp only: insertionSort_Cons sorted_insertBy)
qed

lemma insertionSort_contract: "sortSliceContract insertionSort"
proof -
  have "(\<lambda>a b. \<not> nonAtomicLess b a) = byFeeIdxNonce"
    by (simp add: fun_eq_iff not_nonAtomicLess_iff)
  then show ?thesis
    by (simp add: sortSliceContract_def mset_insertionSort sorted_insertionSort)
qed

lemma rev_contract: "mapRangeContract rev"
  by (simp add: mapRangeContract_def)

subsection \<open>Ordering: the result\<close>

text \<open>
  C4 (amended). Whatever sorted permutation \<open>sort.Slice\<close> produces and in whatever order
  the map of groups is visited: in the result of \<open>sortL2Txs\<close> the non-atomic
  transactions are those of the input, ordered by \<open>AbsoluteFee\<close> descending, then
  \<open>FromIdx\<close> ascending, then \<open>Nonce\<close> ascending; they are merged with the atomic
  groups by comparing the fee of a non-atomic transaction with the fee of the group: a
  non-atomic transaction stands before an atomic one only if its fee is strictly greater
  than the fee of that group, so that when the two fees are equal the atomic group
  precedes the non-atomic transaction; and the members of every atomic group appear
  in the order they have in the input.
\<close>

theorem sortL2Txs_order:
  assumes "sortSliceContract sortSlice" and "mapRangeContract mapRange"
  shows "sorted_wrt byFeeIdxNonce
           (filter (\<lambda>t. \<not> isAtomicTx t) (sortL2Txs sortSlice mapRange l2Txs fee)) \<and>
         mset (filter (\<lambda>t. \<not> isAtomicTx t) (sortL2Txs sortSlice mapRange l2Txs fee)) =
           mset (filter (\<lambda>t. \<not> isAtomicTx t) l2Txs) \<and>
         sorted_wrt (mergedByFee fee) (sortL2Txs sortSlice mapRange l2Txs fee) \<and>
         (\<forall>g. g \<noteq> EmptyAtomicGroupID \<longrightarrow>
            filter (\<lambda>t. AtomicGroupID t = g) (sortL2Txs sortSlice mapRange l2Txs fee) =
            filter (\<lambda>t. AtomicGroupID t = g) l2Txs)"
proof -
  obtain m n where sep: "separateAtomicTxs l2Txs = (m, n)" by (cases "separateAtomicTxs l2Txs")
  from sep separateAtomicTxs_snd [of l2Txs] have n: "n = filter (\<lambda>t. \<not> isAtomicTx t) l2Txs"
    by simp
  from sep have m: "m = fst (separateAtomicTxs l2Txs)" by simp
  define G where "G = sort_key (\<lambda>g. - groupFee fee g) (map snd (mapRange m))"
  define xs where "xs = sortSlice nonAtomicLess n"
  have out: "sortL2Txs sortSlice mapRange l2Txs fee = mergeTxs fee xs G"
    by (simp add: sortL2Txs_def sep G_def xs_def)
  note gf = groups_facts [OF assms(2) m G_def]
  have xs_mset: "mset xs = mset n"
    using assms(1) by (simp add: sortSliceContract_def xs_def)
  then have xs_set: "set xs = set n" by (rule mset_eq_setD)
  have xs_na: "\<forall>t\<in>set xs. \<not> isAtomicTx t"
    unfolding xs_set n by simp
  have "sorted_wrt (\<lambda>a b. \<not> nonAtomicLess b a) xs"
    using assms(1) by (simp add: sortSliceContract_def xs_def)
  then have xs_sorted: "sorted_wrt byFeeIdxNonce xs"
    by (simp add: not_nonAtomicLess_iff)
  then have xs_fee: "sorted_wrt (\<lambda>a b. AbsoluteFee b \<le> AbsoluteFee a) xs"
    by (rule sorted_wrt_mono_rel [rotated]) (rule byFeeIdxNonce_fee)
  have G_key: "AtomicGroupID t = AtomicGroupID (hd l)" if "l \<in> set G" "t \<in> set l" for l t
  proof -
    from gf(1) that(1) have "l = filter (\<lambda>t. AtomicGroupID t = AtomicGroupID (hd l)) l2Txs"
      by blast
    then have "set l = set (filter (\<lambda>t. AtomicGroupID t = AtomicGroupID (hd l)) l2Txs)"
      by (rule arg_cong)
    with that(2) show ?thesis by simp
  qed
  have G_atomic: "\<forall>l\<in>set G. \<forall>t\<in>set l. isAtomicTx t \<and> lookupFee fee (AtomicGroupID t) = groupFee fee l"
  proof (intro ballI)
    fix l t assume l: "l \<in> set G" and t: "t \<in> set l"
    from G_key [OF l t] gf(1) l show "isAtomicTx t \<and> lookupFee fee (AtomicGroupID t) = groupFee fee l"
      by (simp add: isAtomicTx_def groupFee_def)
  qed
  then have G_atomic': "\<forall>l\<in>set G. \<forall>t\<in>set l. isAtomicTx t" by blast
  have f1: "filter (\<lambda>t. \<not> isAtomicTx t) (mergeTxs fee xs G) = xs"
    using xs_na G_atomic' by (rule filter_nonAtomic_mergeTxs)
  have f2: "filter isAtomicTx (mergeTxs fee xs G) = concat G"
    using xs_na G_atomic' by (rule filter_atomic_mergeTxs)
  have s3: "sorted_wrt (mergedByFee fee) (mergeTxs fee xs G)"
    using xs_na G_atomic xs_fee gf(4) by (rule sorted_wrt_mergeTxs)
  have g4: "filter (\<lambda>t. AtomicGroupID t = g) (mergeTxs fee xs G) =
            filter (\<lambda>t. AtomicGroupID t = g) l2Txs" if g: "g \<noteq> EmptyAtomicGroupID" for g
  proof -
    have "filter (\<lambda>t. AtomicGroupID t = g) (mergeTxs fee xs G) =
          filter (\<lambda>t. AtomicGroupID t = g) (filter isAtomicTx (mergeTxs fee xs G))"
      using g by (auto simp: isAtomicTx_def intro: filter_cong)
    also have "\<dots> = filter (\<lambda>t. AtomicGroupID t = g) (concat G)"
      by (simp only: f2)
    also have "\<dots> = concat (filter (\<lambda>l. AtomicGroupID (hd l) = g) G)"
      by (rule filter_concat_groups) (use G_key in blast)
    also have "\<dots> = filter (\<lambda>t. AtomicGroupID t = g) l2Txs"
    proof (cases "\<exists>l\<in>set G. AtomicGroupID (hd l) = g")
      case True
      then obtain l where l: "l \<in> set G" "AtomicGroupID (hd l) = g" by blast
      from filter_key_single [OF gf(2) l(1)] l(2)
      have "filter (\<lambda>l. AtomicGroupID (hd l) = g) G = [l]" by simp
      moreover from gf(1) l have "l = filter (\<lambda>t. AtomicGroupID t = g) l2Txs" by blast
      ultimately show ?thesis by simp
    next
      case False
      then have "filter (\<lambda>l. AtomicGroupID (hd l) = g) G = []"
        by (simp add: filter_empty_conv)
      moreover have "filter (\<lambda>t. AtomicGroupID t = g) l2Txs = []"
      proof (rule filter_empty_no_member, rule notI)
        assume "\<exists>t\<in>set l2Txs. AtomicGroupID t = g"
        then obtain t where t: "t \<in> set l2Txs" "AtomicGroupID t = g" by blast
        with g have "isAtomicTx t" by (simp add: isAtomicTx_def)
        with gf(3) t obtain l where "l \<in> set G" "AtomicGroupID (hd l) = g" by blast
        with False show False by blast
      qed
      ultimately show ?thesis by simp
    qed
    finally show ?thesis .
  qed
  from xs_sorted xs_mset s3 g4 show ?thesis
    unfolding out f1 n by blast
qed

lemma averageFee_example:
  "calculateAtomicGroupsAverageFee (+) (/) [txN1, txG1, txN2, txG2, txN3] = feeG"
  by (simp add: calculateAtomicGroupsAverageFee_def feeG_def txN1_def txN2_def txN3_def
      txG1_def txG2_def emptyPoolL2Tx_def EmptyAtomicGroupID_def fun_eq_iff)

lemma sortL2Txs_example:
  "sortL2Txs insertionSort rev [txN1, txG1, txN2, txG2, txN3] feeG = [txN2, txG1, txG2, txN3, txN1]"
  by (simp add: sortL2Txs_def separateAtomicTxs_def insertionSort_def nonAtomicLess_def
      groupFee_def lookupFee_def feeG_def txN1_def txN2_def txN3_def txG1_def txG2_def
      emptyPoolL2Tx_def EmptyAtomicGroupID_def)

theorem sortL2Txs_order_witness:
  "sortSliceContract insertionSort \<and> mapRangeContract rev \<and>
   sortL2Txs insertionSort rev [txN1, txG1, txN2, txG2, txN3]
     (calculateAtomicGroupsAverageFee (+) (/) [txN1, txG1, txN2, txG2, txN3])
     = [txN2, txG1, txG2, txN3, txN1] \<and>
   sorted_wrt (mergedByFee feeG) [txN2, txG1, txG2, txN3, txN1] \<and>
   filter (\<lambda>t. AtomicGroupID t = 7) [txN2, txG1, txG2, txN3, txN1] =
     filter (\<lambda>t. AtomicGroupID t = 7) [txN1, txG1, txN2, txG2, txN3]"
proof -
  have "(7 :: AtomicGroupID) \<noteq> EmptyAtomicGroupID" by (simp add: EmptyAtomicGroupID_def)
  with sortL2Txs_order [OF insertionSort_contract rev_contract, of "[txN1, txG1, txN2, txG2, txN3]" feeG]
  have "sorted_wrt (mergedByFee feeG) (sortL2Txs insertionSort rev [txN1, txG1, txN2, txG2, txN3] feeG) \<and>
     filter (\<lambda>t. AtomicGroupID t = 7) (sortL2Txs insertionSort rev [txN1, txG1, txN2, txG2, txN3] feeG) =
     filter (\<lambda>t. AtomicGroupID t = 7) [txN1, txG1, txN2, txG2, txN3]"
    by blast
  then show ?thesis
    unfolding averageFee_example sortL2Txs_example using insertionSort_contract rev_contract by blast
qed

lemma averageFee_tie: "calculateAtomicGroupsAverageFee (+) (/) [txN3, txG3] = feeG"
  by (simp add: calculateAtomicGroupsAverageFee_def feeG_def txN3_def txG3_def
      emptyPoolL2Tx_def EmptyAtomicGroupID_def fun_eq_iff)

text \<open>
  On a tie the non-atomic transaction does not precede the group: a non-atomic transaction
  with fee 2 and a group whose mean fee is 2 come out group first.
\<close>

theorem sortL2Txs_tie_counterexample:
  "\<not> isAtomicTx txN3 \<and> isAtomicTx txG3 \<and>
   AbsoluteFee txN3 = lookupFee (calculateAtomicGroupsAverageFee (+) (/) [txN3, txG3]) (AtomicGroupID txG3) \<and>
   sortL2Txs insertionSort rev [txN3, txG3] (calculateAtomicGroupsAverageFee (+) (/) [txN3, txG3])
     = [txG3, txN3]"
  unfolding averageFee_tie
  by (simp add: sortL2Txs_def separateAtomicTxs_def insertionSort_def nonAtomicLess_def
      groupFee_def lookupFee_def feeG_def txN3_def txG3_def isAtomicTx_def
      emptyPoolL2Tx_def EmptyAtomicGroupID_def)

subsection \<open>The selection: the user transactions and the capacity of the batch\<close>

lemma sameButEffectiveAmounts_refl: "sameButEffectiveAmounts tx tx"
  by (simp add: sameButEffectiveAmounts_def)

lemma sameButEffectiveAmounts_trans:
  "sameButEffectiveAmounts a b \<Longrightarrow> sameButEffectiveAmounts b c \<Longrightarrow> sameButEffectiveAmounts a c"
  unfolding sameButEffectiveAmounts_def
  by (cases a, cases b, cases c) auto

lemma computeEffectiveAmounts_same:
  "sameButEffectiveAmounts (computeEffectiveAmounts c accounts tx) tx"
  by (simp add: sameButEffectiveAmounts_def computeEffectiveAmounts_def Let_def)

lemma processL1UserTxs_same:
  "processL1UserTxs sel s txs = Inr (s', txs') \<Longrightarrow> list_all2 sameButEffectiveAmounts txs' txs"
proof (induction txs arbitrary: s s' txs')
  case Nil
  then show ?case by simp
next
  case (Cons tx txs)
  then show ?case
    by (auto simp: ProcessL1Tx_def Let_def computeEffectiveAmounts_same
        split: sum.splits prod.splits)
qed

lemma verifyOne_Next:
  assumes "verifyOne sel cfg fut ls tx = Next ls'"
  shows "loopState.l1UserTxs ls' = loopState.l1UserTxs ls \<and> (capacityOk cfg ls \<longrightarrow> capacityOk cfg ls')"
  using assms
  by (auto simp: verifyOne_def rejectTx_def coordinatorAccountStage_def
        recipientAccountStage_def newL1CoordinatorTx_def selectTx_def onSelectedL2Tx_def
        onTxL1ToBeProcessed_def onAccAuth_def onNonSelectedL2Tx_def onUnforjableL2Tx_def Let_def
        capacityOk_def nAddedL1Txs_def nAddedL2Txs_def canAddL2Tx_def
        canAddL2TxThatNeedsNewCoordL1Tx_def
      split: if_splits verdict.splits sum.splits option.splits prod.splits idxLookup.splits)

lemma verifyOne_FailedAG:
  assumes "verifyOne sel cfg fut ls tx = FailedAG fag ls'"
  shows "loopState.l1UserTxs ls' = loopState.l1UserTxs ls"
  using assms
  by (auto simp: verifyOne_def rejectTx_def coordinatorAccountStage_def
        recipientAccountStage_def newL1CoordinatorTx_def selectTx_def onSelectedL2Tx_def
        onTxL1ToBeProcessed_def onAccAuth_def onNonSelectedL2Tx_def onUnforjableL2Tx_def Let_def
      split: if_splits verdict.splits sum.splits option.splits prod.splits idxLookup.splits)

lemma verifyTxs_Next:
  "verifyTxs sel cfg fut txs ls = Next ls' \<Longrightarrow>
   loopState.l1UserTxs ls' = loopState.l1UserTxs ls \<and> (capacityOk cfg ls \<longrightarrow> capacityOk cfg ls')"
proof (induction txs arbitrary: ls)
  case Nil
  then show ?case by simp
next
  case (Cons tx txs)
  from Cons.prems obtain c where c: "verifyOne sel cfg fut ls tx = Next c"
    and rest: "verifyTxs sel cfg fut txs c = Next ls'"
    by (auto split: step.splits)
  from verifyOne_Next [OF c] Cons.IH [OF rest] show ?case by simp
qed

lemma verifyTxs_FailedAG:
  "verifyTxs sel cfg fut txs ls = FailedAG fag ls' \<Longrightarrow>
   loopState.l1UserTxs ls' = loopState.l1UserTxs ls"
proof (induction txs arbitrary: ls)
  case Nil
  then show ?case by simp
next
  case (Cons tx txs)
  show ?case
  proof (cases "verifyOne sel cfg fut ls tx")
    case (Next c)
    with Cons.prems have "verifyTxs sel cfg fut txs c = FailedAG fag ls'" by simp
    from Cons.IH [OF this] verifyOne_Next [OF Next] show ?thesis by simp
  next
    case (FailedAG g c)
    with Cons.prems have "c = ls'" by simp
    with verifyOne_FailedAG [OF FailedAG] show ?thesis by simp
  next
    case (Fatal err)
    with Cons.prems show ?thesis by simp
  qed
qed

lemma capacityOk_reset:
  "capacityOk cfg (ls\<lparr>iteSelectedTxs := a, nonSelectedTxs := b\<rparr>) = capacityOk cfg ls"
  by (simp add: capacityOk_def nAddedL1Txs_def nAddedL2Txs_def)

lemma finishSelection_fields:
  "finishSelection sel ls = Inr (r, s') \<Longrightarrow>
   Selection.l1UserTxs r = loopState.l1UserTxs ls \<and>
   Selection.l1CoordinatorTxs r = loopState.l1CoordinatorTxs ls \<and>
   selL2Txs r = selectedTxs ls"
  by (auto simp: finishSelection_def Let_def split: sum.splits)

lemma selectionLoop_Done:
  "selectionLoop sel cfg fut txs ls = Done r s' \<Longrightarrow>
   Selection.l1UserTxs r = loopState.l1UserTxs ls \<and>
   (capacityOk cfg ls \<longrightarrow>
      int (length (Selection.l1UserTxs r) + length (Selection.l1CoordinatorTxs r))
        \<le> uint (MaxL1Tx cfg) \<and>
      int (length (Selection.l1UserTxs r) + length (Selection.l1CoordinatorTxs r)
           + length (selL2Txs r)) \<le> uint (MaxTx cfg))"
proof (induction sel cfg fut txs ls rule: selectionLoop.induct)
  case (1 sel cfg fut txs ls)
  let ?ls0 = "ls\<lparr>iteSelectedTxs := [], nonSelectedTxs := []\<rparr>"
  from "1.prems" obtain x where x: "verifyTxs sel cfg fut txs ?ls0 = Next x"
    by (subst (asm) selectionLoop.simps) (auto split: step.splits)
  note inv = verifyTxs_Next [OF x]
  show ?case
  proof (cases "length (iteSelectedTxs x) = 0")
    case True
    with "1.prems" x obtain fin: "finishSelection sel x = Inr (r, s')"
      by (subst (asm) selectionLoop.simps) (auto split: sum.splits prod.splits)
    from finishSelection_fields [OF fin] inv show ?thesis
      by (auto simp: capacityOk_def nAddedL1Txs_def nAddedL2Txs_def)
  next
    case False
    with "1.prems" x have rec: "selectionLoop sel cfg fut (nonSelectedTxs x) x = Done r s'"
      by (subst (asm) selectionLoop.simps) simp
    from "1.IH" [OF x False rec] inv show ?thesis
      by (auto simp: capacityOk_reset)
  qed
qed

lemma selectionLoop_Restart:
  "selectionLoop sel cfg fut txs ls = Restart fag ls' \<Longrightarrow>
   loopState.l1UserTxs ls' = loopState.l1UserTxs ls"
proof (induction sel cfg fut txs ls rule: selectionLoop.induct)
  case (1 sel cfg fut txs ls)
  let ?ls0 = "ls\<lparr>iteSelectedTxs := [], nonSelectedTxs := []\<rparr>"
  show ?case
  proof (cases "verifyTxs sel cfg fut txs ?ls0")
    case (Next x)
    show ?thesis
    proof (cases "length (iteSelectedTxs x) = 0")
      case True
      with "1.prems" Next show ?thesis
        by (subst (asm) selectionLoop.simps) (auto split: sum.splits prod.splits)
    next
      case False
      with "1.prems" Next have rec: "selectionLoop sel cfg fut (nonSelectedTxs x) x = Restart fag ls'"
        by (subst (asm) selectionLoop.simps) simp
      from "1.IH" [OF Next False rec] verifyTxs_Next [OF Next] show ?thesis by simp
    qed
  next
    case (FailedAG g c)
    with "1.prems" have "c = ls'"
      by (subst (asm) selectionLoop.simps) simp
    with verifyTxs_FailedAG [OF FailedAG] show ?thesis by simp
  next
    case (Fatal err)
    with "1.prems" show ?thesis
      by (subst (asm) selectionLoop.simps) simp
  qed
qed

lemma startSelection_Done:
  assumes "startSelection sel cfg failed attempt s txs fut = Done r s'"
  shows "list_all2 sameButEffectiveAmounts (Selection.l1UserTxs r) txs"
    and "int (length txs) \<le> uint (MaxL1Tx cfg) \<Longrightarrow> int (length txs) \<le> uint (MaxTx cfg) \<Longrightarrow>
         int (length (Selection.l1UserTxs r) + length (Selection.l1CoordinatorTxs r))
           \<le> uint (MaxL1Tx cfg) \<and>
         int (length (Selection.l1UserTxs r) + length (Selection.l1CoordinatorTxs r)
              + length (selL2Txs r)) \<le> uint (MaxTx cfg)"
proof -
  from assms obtain s1 txs1 where p: "processL1UserTxs sel s txs = Inr (s1, txs1)"
    by (auto simp: startSelection_def split: sum.splits prod.splits)
  note same = processL1UserTxs_same [OF p]
  then have len: "length txs1 = length txs" by (rule list_all2_lengthD)
  from assms p obtain pending where g: "GetPendingTxs sel attempt = Inr pending"
    by (auto simp: startSelection_def split: sum.splits prod.splits)
  obtain tmp d0 where f1: "filterFailedAtomicGroups sel pending failed = (tmp, d0)"
    by (cases "filterFailedAtomicGroups sel pending failed")
  obtain selectable d1 where f2: "filterInvalidAtomicGroups sel tmp = (selectable, d1)"
    by (cases "filterInvalidAtomicGroups sel tmp")
  define ls0 :: "'a loopState" where
    "ls0 = \<lparr>stateDB = s1, l1UserTxs = txs1, accAuths = [], l1CoordinatorTxs = [],
            selectedTxs = [], nonSelectedTxs = [], iteSelectedTxs = [], coordIdxs = [],
            coordIdxsMap = Map.empty, discardedTxs = d0 @ d1\<rparr>"
  have both: "Selection.l1UserTxs r = txs1 \<and>
     (int (length txs) \<le> uint (MaxL1Tx cfg) \<longrightarrow> int (length txs) \<le> uint (MaxTx cfg) \<longrightarrow>
         int (length (Selection.l1UserTxs r) + length (Selection.l1CoordinatorTxs r))
           \<le> uint (MaxL1Tx cfg) \<and>
         int (length (Selection.l1UserTxs r) + length (Selection.l1CoordinatorTxs r)
              + length (selL2Txs r)) \<le> uint (MaxTx cfg))"
  proof (cases "length selectable = 0")
    case True
    with assms p g f1 f2 len show ?thesis
      by (auto simp: startSelection_def Let_def split: sum.splits)
  next
    case False
    with assms p g f1 f2 obtain l2 where
      loop: "selectionLoop sel cfg fut l2 ls0 = Done r s'"
      by (auto simp: startSelection_def Let_def ls0_def)
    have "capacityOk cfg ls0"
      if "int (length txs) \<le> uint (MaxL1Tx cfg)" "int (length txs) \<le> uint (MaxTx cfg)"
      using that len by (simp add: capacityOk_def nAddedL1Txs_def nAddedL2Txs_def ls0_def)
    with selectionLoop_Done [OF loop] show ?thesis
      by (auto simp: ls0_def)
  qed
  from both same show "list_all2 sameButEffectiveAmounts (Selection.l1UserTxs r) txs" by simp
  from both show "int (length txs) \<le> uint (MaxL1Tx cfg) \<Longrightarrow> int (length txs) \<le> uint (MaxTx cfg) \<Longrightarrow>
         int (length (Selection.l1UserTxs r) + length (Selection.l1CoordinatorTxs r))
           \<le> uint (MaxL1Tx cfg) \<and>
         int (length (Selection.l1UserTxs r) + length (Selection.l1CoordinatorTxs r)
              + length (selL2Txs r)) \<le> uint (MaxTx cfg)" by auto
qed

lemma startSelection_Restart:
  assumes "startSelection sel cfg failed attempt s txs fut = Restart fag ls"
  shows "list_all2 sameButEffectiveAmounts (loopState.l1UserTxs ls) txs"
proof -
  from assms obtain s1 txs1 where p: "processL1UserTxs sel s txs = Inr (s1, txs1)"
    by (auto simp: startSelection_def split: sum.splits prod.splits)
  note same = processL1UserTxs_same [OF p]
  from assms p obtain pending where g: "GetPendingTxs sel attempt = Inr pending"
    by (auto simp: startSelection_def split: sum.splits prod.splits)
  obtain tmp d0 where f1: "filterFailedAtomicGroups sel pending failed = (tmp, d0)"
    by (cases "filterFailedAtomicGroups sel pending failed")
  obtain selectable d1 where f2: "filterInvalidAtomicGroups sel tmp = (selectable, d1)"
    by (cases "filterInvalidAtomicGroups sel tmp")
  define ls0 :: "'a loopState" where
    "ls0 = \<lparr>stateDB = s1, l1UserTxs = txs1, accAuths = [], l1CoordinatorTxs = [],
            selectedTxs = [], nonSelectedTxs = [], iteSelectedTxs = [], coordIdxs = [],
            coordIdxsMap = Map.empty, discardedTxs = d0 @ d1\<rparr>"
  from assms p g f1 f2 obtain l2 where
    loop: "selectionLoop sel cfg fut l2 ls0 = Restart fag ls"
    by (auto simp: startSelection_def Let_def ls0_def split: sum.splits if_splits)
  from selectionLoop_Restart [OF loop] same show ?thesis by (simp add: ls0_def)
qed

lemma list_all2_same_trans:
  "list_all2 sameButEffectiveAmounts xs ys \<Longrightarrow> list_all2 sameButEffectiveAmounts ys zs \<Longrightarrow>
   list_all2 sameButEffectiveAmounts xs zs"
  by (rule list_all2_trans [where ?P1.0 = sameButEffectiveAmounts and ?P2.0 = sameButEffectiveAmounts])
     (auto intro: sameButEffectiveAmounts_trans)

lemma selectionRuns_Some:
  "selectionRuns fuel sel cfg failed attempt s txs fut = Some (Inr (r, s')) \<Longrightarrow>
   list_all2 sameButEffectiveAmounts (Selection.l1UserTxs r) txs \<and>
   (int (length txs) \<le> uint (MaxL1Tx cfg) \<longrightarrow> int (length txs) \<le> uint (MaxTx cfg) \<longrightarrow>
         int (length (Selection.l1UserTxs r) + length (Selection.l1CoordinatorTxs r))
           \<le> uint (MaxL1Tx cfg) \<and>
         int (length (Selection.l1UserTxs r) + length (Selection.l1CoordinatorTxs r)
              + length (selL2Txs r)) \<le> uint (MaxTx cfg))"
proof (induction fuel arbitrary: failed attempt s txs)
  case 0
  then show ?case by simp
next
  case (Suc fuel)
  show ?case
  proof (cases "startSelection sel cfg failed attempt s txs fut")
    case (Done r0 s0)
    with Suc.prems have "r0 = r" by simp
    with startSelection_Done [OF Done] show ?thesis by blast
  next
    case (Failed err)
    with Suc.prems show ?thesis by simp
  next
    case (Restart fag ls)
    with Suc.prems obtain s1 where
      rec: "selectionRuns fuel sel cfg (failed(groupID fag \<mapsto> fag)) (Suc attempt) s1
              (loopState.l1UserTxs ls) fut = Some (Inr (r, s'))"
      by (auto split: sum.splits)
    note same = startSelection_Restart [OF Restart]
    then have "length (loopState.l1UserTxs ls) = length txs" by (rule list_all2_lengthD)
    with Suc.IH [OF rec] same show ?thesis
      by (auto intro: list_all2_same_trans)
  qed
qed

lemma l1Deposit_processed:
  "computeEffectiveAmounts consts0 testAccounts l1Deposit
     = l1DepositDone"
  by (simp add: computeEffectiveAmounts_def l1DepositDone_def l1Deposit_def testL1Tx_def senderAccount_def
      recipientSpecified_def senderBalance_def testAccounts_def consts0_def Let_def)

lemma l1DepositB_processed:
  "computeEffectiveAmounts consts0 testAccounts l1DepositB
     = l1DepositBDone"
  by (simp add: computeEffectiveAmounts_def l1DepositBDone_def l1DepositB_def testL1Tx_def senderAccount_def
      recipientSpecified_def senderBalance_def testAccounts_def consts0_def Let_def)

lemma selEx_simps:
  "coordAccount (selEx pool) = \<lparr>Addr = 77, CoordBJJ = 78, AccountCreationAuth = [1, 2, 3]\<rparr>"
  "selConsts (selEx pool) = consts0"
  "accountsOf (selEx pool) s = testAccounts"
  "applyL1Tx (selEx pool) s tx =
     Inr (if L1Tx.Type tx = TxTypeCreateAccountDeposit \<and> \<not> UserOrigin tx
          then L1Tx.TokenID tx # s else s)"
  "ProcessL2Tx (selEx pool) s l2 = Inr s"
  "MakeCheckpoint (selEx pool) s = Inr s"
  "GetPendingTxs (selEx pool) attempt = Inr pool"
  "GetIdxByEthAddrBJJ (selEx pool) s addr bjj tokenID =
     (if tokenID \<in> set s then IdxFound 300 else ErrIdxNotFound)"
  "AccumulatedFees (selEx pool) s = []"
  "ErrNoAvailableSlots (selEx pool) =
     \<lparr>Message = ''no available slots'', Code = 1, ErrType = ''ErrNoAvailableSlots''\<rparr>"
  "rangeOverGroups (selEx pool) = (\<lambda>groups. groups)"
  "rangeOverSortedGroups (selEx pool) = rev"
  "sortSliceBy (selEx pool) = insertionSort"
  "verifyTx (selEx pool) s fut l2 = Selectable"
  "recipientNeedsAccount (selEx pool) s fut l2 = None"
  by (simp_all add: selEx_def)

lemma ProcessL1Tx_selEx_user:
  "UserOrigin tx \<Longrightarrow>
   ProcessL1Tx (selEx pool) s tx = Inr (s, computeEffectiveAmounts consts0 testAccounts tx)"
  by (simp add: ProcessL1Tx_def selEx_simps computeEffectiveAmounts_def Let_def)

lemma deposits_user: "UserOrigin l1Deposit" "UserOrigin l1DepositB"
  by (simp_all add: l1Deposit_def l1DepositB_def testL1Tx_def)

lemma processL1UserTxs_one:
  "processL1UserTxs (selEx pool) [] [l1Deposit]
     = Inr ([], [l1DepositDone])"
  by (simp add: ProcessL1Tx_selEx_user deposits_user l1Deposit_processed)

lemma processL1UserTxs_two:
  "processL1UserTxs (selEx pool) [] [l1Deposit, l1DepositB]
     = Inr ([], [l1DepositDone,
                 l1DepositBDone])"
  by (simp add: ProcessL1Tx_selEx_user deposits_user l1Deposit_processed l1DepositB_processed)

lemma filters_empty:
  "filterFailedAtomicGroups sel [] failed = ([], [])"
  "filterInvalidAtomicGroups (selEx pool) [] = ([], [])"
  by (simp_all add: filterFailedAtomicGroups_def filterInvalidAtomicGroups_def selEx_simps)

lemma run_empty_pool_one:
  "GetL1L2TxSelection (Suc 0) (selEx []) cfg [] [l1Deposit] []
     = Some (Inr (onlyL1UserTxs [l1DepositDone], []))"
  unfolding GetL1L2TxSelection_def getL1L2TxSelection_def selectionRuns.simps
    startSelection_def processL1UserTxs_one
  by (simp add: filters_empty selEx_simps onlyL1UserTxs_def)

lemma run_empty_pool_two:
  "GetL1L2TxSelection (Suc 0) (selEx []) cfg [] [l1Deposit, l1DepositB] []
     = Some (Inr (onlyL1UserTxs [l1DepositDone, l1DepositBDone], []))"
  unfolding GetL1L2TxSelection_def getL1L2TxSelection_def selectionRuns.simps
    startSelection_def processL1UserTxs_two
  by (simp add: filters_empty selEx_simps onlyL1UserTxs_def)

lemma txN1_fields:
  "AtomicGroupID txN1 = EmptyAtomicGroupID" "PoolL2Tx.FromIdx txN1 = 256"
  "PoolL2Tx.TokenID txN1 = 0"
  by (simp_all add: txN1_def emptyPoolL2Tx_def)

lemma filters_txN1:
  "filterFailedAtomicGroups sel [txN1] failed = ([txN1], [])"
  "filterInvalidAtomicGroups (selEx pool) [txN1] = ([txN1], [])"
  by (simp_all add: filterFailedAtomicGroups_def filterInvalidAtomicGroups_def selEx_simps
      txN1_fields)

lemma sortL2Txs_txN1: "sortL2Txs insertionSort rev [txN1] m = [txN1]"
  by (simp add: sortL2Txs_def separateAtomicTxs_def insertionSort_def txN1_fields)

lemma testAccounts_256: "testAccounts 256 = Some \<lparr>Idx = 256, TokenID = 0, Nonce = 0, Balance = 10, BJJ = 1, EthAddr = 10\<rparr>"
  by (simp add: testAccounts_def)

lemma verifyOne_txN1:
  "verifyOne (selEx pool) (cfgEx 3 2) []
     \<lparr>stateDB = [], l1UserTxs = [d], accAuths = [], l1CoordinatorTxs = [],
      selectedTxs = [], nonSelectedTxs = [], iteSelectedTxs = [], coordIdxs = [],
      coordIdxsMap = Map.empty, discardedTxs = []\<rparr> txN1
   = Next \<lparr>stateDB = [0], l1UserTxs = [d], accAuths = [[1, 2, 3]],
           l1CoordinatorTxs = [l1CoordEx], selectedTxs = [txN1], nonSelectedTxs = [],
           iteSelectedTxs = [txN1], coordIdxs = [300], coordIdxsMap = [0 \<mapsto> 300],
           discardedTxs = []\<rparr>"
  by (simp add: verifyOne_def canAddL2Tx_def canAddL2TxThatNeedsNewCoordL1Tx_def
      nAddedL1Txs_def nAddedL2Txs_def cfgEx_def selEx_simps coordinatorAccountStage_def
      coordAccountForTokenID_def getCoordIdx_def newL1CoordinatorTx_def onTxL1ToBeProcessed_def
      ProcessL1Tx_def computeEffectiveAmounts_def onAccAuth_def recipientAccountStage_def
      selectTx_def onSelectedL2Tx_def GetAccount_def testAccounts_256 txN1_fields l1CoordEx_def Let_def)

lemma selectionLoop_txN1:
  "selectionLoop (selEx pool) (cfgEx 3 2) [] [txN1]
     \<lparr>stateDB = [], l1UserTxs = [d], accAuths = [], l1CoordinatorTxs = [],
      selectedTxs = [], nonSelectedTxs = [], iteSelectedTxs = [], coordIdxs = [],
      coordIdxsMap = Map.empty, discardedTxs = []\<rparr>
   = Done \<lparr>Selection.coordIdxs = [300], accCreationAuths = [[1, 2, 3]], l1UserTxs = [d],
           l1CoordinatorTxs = [l1CoordEx], selL2Txs = [txN1], discardedL2Txs = []\<rparr> [0]"
  by (simp add: verifyOne_txN1 finishSelection_def selEx_simps)

lemma run_txN1:
  "GetL1L2TxSelection (Suc 0) (selEx [txN1]) (cfgEx 3 2) [] [l1Deposit] []
     = Some (Inr (selectionEx, [0]))"
  unfolding GetL1L2TxSelection_def getL1L2TxSelection_def selectionRuns.simps
    startSelection_def processL1UserTxs_one
  by (simp add: filters_txN1 selEx_simps sortL2Txs_txN1 selectionLoop_txN1 selectionEx_def
      del: selectionLoop.simps)


text \<open>
  The capacity bounds do not hold for every call that returns: nowhere does the selection
  compare the number of user transactions with a bound; it processes all it is given and
  returns them. With room for one L1 transaction, two deposits and an empty pool, the call
  returns the two deposits.
\<close>

theorem GetL1L2TxSelection_capacity_counterexample:
  "GetL1L2TxSelection (Suc 0) (selEx []) (cfgEx 4 1) [] [l1Deposit, l1DepositB] []
     = Some (Inr (onlyL1UserTxs [l1DepositDone, l1DepositBDone], [])) \<and>
   \<not> int (length (Selection.l1UserTxs (onlyL1UserTxs [l1DepositDone, l1DepositBDone]))
          + length (Selection.l1CoordinatorTxs (onlyL1UserTxs [l1DepositDone, l1DepositBDone])))
       \<le> uint (MaxL1Tx (cfgEx 4 1))"
  by (simp add: run_empty_pool_two onlyL1UserTxs_def cfgEx_def)

text \<open>
  C1, amended. For every call to \<open>GetL1L2TxSelection\<close> that returns without error and
  whose user transactions alone fit, their number being at most \<open>MaxL1Tx\<close> and at most
  \<open>MaxTx\<close>, the returned selection satisfies both capacity bounds: the number of user
  transactions plus the number of coordinator transactions is at most \<open>MaxL1Tx\<close>, and the
  number of user, coordinator and selected pool transactions is at most \<open>MaxTx\<close>.
\<close>

theorem GetL1L2TxSelection_capacity:
  assumes "GetL1L2TxSelection fuel sel selectionConfig s userTxs futureTxs = Some (Inr (r, s'))"
    and "int (length userTxs) \<le> uint (MaxL1Tx selectionConfig)"
    and "int (length userTxs) \<le> uint (MaxTx selectionConfig)"
  shows "int (length (Selection.l1UserTxs r) + length (Selection.l1CoordinatorTxs r))
           \<le> uint (MaxL1Tx selectionConfig) \<and>
         int (length (Selection.l1UserTxs r) + length (Selection.l1CoordinatorTxs r)
              + length (selL2Txs r)) \<le> uint (MaxTx selectionConfig)"
proof -
  from assms(1)
  have "selectionRuns fuel sel selectionConfig Map.empty 0 s userTxs futureTxs = Some (Inr (r, s'))"
    by (simp add: GetL1L2TxSelection_def getL1L2TxSelection_def)
  from selectionRuns_Some [OF this] assms(2,3) show ?thesis by blast
qed

theorem GetL1L2TxSelection_capacity_witness:
  "GetL1L2TxSelection (Suc 0) (selEx [txN1]) (cfgEx 3 2) [] [l1Deposit] []
     = Some (Inr (selectionEx, [0])) \<and>
   int (length [l1Deposit]) \<le> uint (MaxL1Tx (cfgEx 3 2)) \<and>
   int (length [l1Deposit]) \<le> uint (MaxTx (cfgEx 3 2)) \<and>
   int (length (Selection.l1UserTxs selectionEx) + length (Selection.l1CoordinatorTxs selectionEx))
     \<le> uint (MaxL1Tx (cfgEx 3 2)) \<and>
   int (length (Selection.l1UserTxs selectionEx) + length (Selection.l1CoordinatorTxs selectionEx)
        + length (selL2Txs selectionEx)) \<le> uint (MaxTx (cfgEx 3 2)) \<and>
   length (Selection.l1CoordinatorTxs selectionEx) = 1 \<and> length (selL2Txs selectionEx) = 1"
proof -
  have a: "int (length [l1Deposit]) \<le> uint (MaxL1Tx (cfgEx 3 2))"
    and b: "int (length [l1Deposit]) \<le> uint (MaxTx (cfgEx 3 2))"
    by (simp_all add: cfgEx_def)
  from GetL1L2TxSelection_capacity [OF run_txN1 a b] a b run_txN1 show ?thesis
    by (simp add: selectionEx_def)
qed

text \<open>
  The returned user transactions are not the ones passed in: each is processed through a
  pointer into the slice, which sets its effective amounts, and the slice is returned. A
  deposit that comes in with no effective amounts goes out with both.
\<close>

theorem GetL1L2TxSelection_l1UserTxs_counterexample:
  "GetL1L2TxSelection (Suc 0) (selEx []) (cfgEx 8 4) [] [l1Deposit] []
     = Some (Inr (onlyL1UserTxs [l1DepositDone], [])) \<and>
   Selection.l1UserTxs (onlyL1UserTxs [l1DepositDone]) \<noteq> [l1Deposit]"
proof -
  have "[l1DepositDone] \<noteq> [l1Deposit]"
    by (simp add: l1DepositDone_def l1Deposit_def testL1Tx_def)
  then have "Selection.l1UserTxs (onlyL1UserTxs [l1DepositDone]) \<noteq> [l1Deposit]"
    by (simp add: onlyL1UserTxs_def)
  with run_empty_pool_one [of "cfgEx 8 4"] show ?thesis by blast
qed

text \<open>
  C10, amended. For every call to \<open>GetL1L2TxSelection\<close> that returns without error, the
  returned \<open>l1UserTxs\<close> list has the length and the order of the list passed as input, and
  each of its transactions is the input transaction at that position, unchanged but for
  its \<open>EffectiveAmount\<close> and \<open>EffectiveDepositAmount\<close>, which processing it sets,
  regardless of how many L2 transactions were selected or discarded.
\<close>

theorem GetL1L2TxSelection_l1UserTxs:
  assumes "GetL1L2TxSelection fuel sel selectionConfig s userTxs futureTxs = Some (Inr (r, s'))"
  shows "list_all2 sameButEffectiveAmounts (Selection.l1UserTxs r) userTxs"
proof -
  from assms
  have "selectionRuns fuel sel selectionConfig Map.empty 0 s userTxs futureTxs = Some (Inr (r, s'))"
    by (simp add: GetL1L2TxSelection_def getL1L2TxSelection_def)
  from selectionRuns_Some [OF this] show ?thesis by blast
qed

theorem GetL1L2TxSelection_l1UserTxs_witness:
  "GetL1L2TxSelection (Suc 0) (selEx [txN1]) (cfgEx 3 2) [] [l1Deposit] []
     = Some (Inr (selectionEx, [0])) \<and>
   list_all2 sameButEffectiveAmounts (Selection.l1UserTxs selectionEx) [l1Deposit] \<and>
   Selection.l1UserTxs selectionEx = [l1DepositDone] \<and>
   GetL1L2TxSelection (Suc 0) (selEx []) (cfgEx 8 4) [] [l1Deposit, l1DepositB] []
     = Some (Inr (onlyL1UserTxs [l1DepositDone, l1DepositBDone], [])) \<and>
   list_all2 sameButEffectiveAmounts
     (Selection.l1UserTxs (onlyL1UserTxs [l1DepositDone, l1DepositBDone])) [l1Deposit, l1DepositB]"
proof -
  note one = GetL1L2TxSelection_l1UserTxs [OF run_txN1]
  note two = GetL1L2TxSelection_l1UserTxs [OF run_empty_pool_two [of "cfgEx 8 4"]]
  from one two run_txN1 run_empty_pool_two [of "cfgEx 8 4"] show ?thesis
    by (simp add: selectionEx_def)
qed

end
